theory Spec2Isabelle
  imports Main "HOL-Library.Word"
begin

section \<open>Go values shared by the handlers\<close>

text \<open>
  A Go \<open>error\<close> as the handlers look at it: \<open>isAuthorizationError\<close> asks for
  the dynamic type \<open>influxdb.ErrAuthorize\<close>, everything else reads the message
  \<open>err.Error()\<close>.
\<close>

datatype error = ErrAuthorize string | ErrorString string

fun Error :: "error \<Rightarrow> string" where
  "Error (ErrAuthorize s) = s"
| "Error (ErrorString s) = s"

text \<open>\<open>interface{}\<close> cells of a result row; \<open>ITime\<close> is a \<open>time.Time\<close>.\<close>

datatype iface = INil | IBool bool | IInt int | IString string | ITime int | IOther string

record Row =
  Name :: string
  Tags :: "string \<rightharpoonup> string"
  Columns :: "string list"
  Values :: "iface list list"

text \<open>
  A Go slice of rows (\<open>[]*influxql.Row\<close>) is a view of a backing array: the array
  it points into, the place in that array where it starts, its length and its capacity.
  Two slices may share an array. The handlers never write through the row pointers, so
  a cell of an array is given by the row it points to; \<open>nilRow\<close> stands for the
  nil pointer in the fresh cells of a new array.
\<close>

record Slice =
  sl_array :: nat
  sl_offset :: nat
  sl_len :: nat
  sl_cap :: nat

text \<open>
  The arrays in memory: the cells of each array, and \<open>nextFree\<close>, the address of
  the next array that is allocated.
\<close>

record Arrays =
  cells :: "nat \<Rightarrow> Row list"
  nextFree :: nat

definition nilRow :: Row where
  "nilRow = \<lparr>Name = [], Tags = Map.empty, Columns = [], Values = []\<rparr>"

text \<open>The elements of a slice, \<open>s[0], ..., s[len(s) - 1]\<close>.\<close>

definition readSlice :: "Arrays \<Rightarrow> Slice \<Rightarrow> Row list" where
  "readSlice a s = take (sl_len s) (drop (sl_offset s) (cells a (sl_array s)))"

text \<open>The cells \<open>cs\<close> with \<open>xs\<close> copied to the places from \<open>i\<close> on.\<close>

definition writeCells :: "Row list \<Rightarrow> nat \<Rightarrow> Row list \<Rightarrow> Row list" where
  "writeCells cs i xs = take i cs @ xs @ drop (i + length xs) cs"

text \<open>
  The builtin \<open>append(s, xs...)\<close>. When the capacity of \<open>s\<close> suffices, the
  elements are written into the backing array of \<open>s\<close> behind its last element, and
  every slice that shares these cells sees them; the result has the same array and
  capacity. Otherwise a new array is allocated and the elements of \<open>s\<close> and
  \<open>xs\<close> are copied into it. The language fixes the capacity of the new array only
  as sufficient; \<open>growslice\<close>, from the old capacity and the needed length, is the
  choice of the runtime.
\<close>

definition appendSlice ::
  "(nat \<Rightarrow> nat \<Rightarrow> nat) \<Rightarrow> Arrays \<Rightarrow> Slice \<Rightarrow> Row list \<Rightarrow> Slice \<times> Arrays" where
  "appendSlice growslice a s xs =
     (let needed = sl_len s + length xs
      in if needed \<le> sl_cap s
         then (s\<lparr>sl_len := needed\<rparr>,
               a\<lparr>cells := (cells a)
                    (sl_array s :=
                       writeCells (cells a (sl_array s)) (sl_offset s + sl_len s) xs)\<rparr>)
         else
           let c = max needed (growslice (sl_cap s) needed)
           in (\<lparr>sl_array = nextFree a, sl_offset = 0, sl_len = needed, sl_cap = c\<rparr>,
               a\<lparr>cells := (cells a)
                    (nextFree a := readSlice a s @ xs @ replicate (c - needed) nilRow),
                 nextFree := Suc (nextFree a)\<rparr>))"



text \<open>
  \<open>influxdb.Result\<close>. The type \<open>'s\<close> of the series is \<open>Slice\<close> for a result
  in memory, and \<open>Row list\<close> for a result as it is marshalled: the marshaller reads
  the elements of the slice.
\<close>

record 's Result =
  StatementID :: int
  Series :: 's
  Err :: "error option"

text \<open>
  The envelope \<open>influxdb.Response\<close> as it is marshalled: its results read through
  their pointers at the moment of the call.
\<close>

record Response =
  Results :: "Row list Result list"
  ResponseErr :: "error option"

section \<open>The response writer\<close>

text \<open>
  What a handler hands to \<open>w.Write\<close>: literal bytes, the JSON text of an envelope
  (\<open>marshalPretty(res, pretty)\<close>, or \<open>json.Marshal\<close>/\<open>MarshalIndent\<close> in
  \<open>httpError\<close>), or the line \<open>json.NewEncoder(w).Encode(&result)\<close> writes. The
  JSON text itself is not spelled out: a chunk names the value that was encoded.
\<close>

datatype chunk = Bytes string | MarshalResponse Response bool | EncodeResult "Row list Result"

text \<open>
  \<open>http.ResponseWriter\<close>: \<open>header\<close> is the map \<open>w.Header()\<close> returns,
  \<open>status\<close> the status line once it is written, \<open>sent_header\<close> the header block
  that went out with it, \<open>body\<close> the writes in order. net/http takes the header block
  at the first \<open>WriteHeader\<close>; later calls of \<open>WriteHeader\<close> and later changes of
  the header map do not reach the client, and the first \<open>Write\<close> on a fresh writer
  sends status 200.
\<close>

record ResponseWriter =
  header :: "(string \<times> string) list"
  status :: "nat option"
  sent_header :: "(string \<times> string) list"
  body :: "chunk list"

definition HeaderAdd :: "string \<Rightarrow> string \<Rightarrow> ResponseWriter \<Rightarrow> ResponseWriter" where
  "HeaderAdd k v w = w\<lparr>header := header w @ [(k, v)]\<rparr>"

definition WriteHeader :: "nat \<Rightarrow> ResponseWriter \<Rightarrow> ResponseWriter" where
  "WriteHeader code w =
     (if status w = None then w\<lparr>status := Some code, sent_header := header w\<rparr> else w)"

definition Write :: "chunk \<Rightarrow> ResponseWriter \<Rightarrow> ResponseWriter" where
  "Write b w = (let w' = WriteHeader 200 w in w'\<lparr>body := body w' @ [b]\<rparr>)"

text \<open>
  \<open>w.(http.Flusher).Flush()\<close>: the writer of this model holds every write in the
  order it was made, so flushing changes nothing in it.
\<close>

definition Flush :: "ResponseWriter \<Rightarrow> ResponseWriter" where
  "Flush w = w"

declare Flush_def [simp]

definition StatusOK :: nat where "StatusOK = 200"
definition StatusBadRequest :: nat where "StatusBadRequest = 400"
definition StatusUnauthorized :: nat where "StatusUnauthorized = 401"
definition StatusNotFound :: nat where "StatusNotFound = 404"
definition StatusRequestTimeout :: nat where "StatusRequestTimeout = 408"
definition StatusInternalServerError :: nat where "StatusInternalServerError = 500"


text \<open>A response nothing has been written to yet.\<close>

definition freshResponse :: ResponseWriter where
  "freshResponse = \<lparr>header = [], status = None, sent_header = [], body = []\<rparr>"

section \<open>strconv\<close>

text \<open>
  \<open>strconv.ParseUint(s, 10, 64)\<close>, \<open>strconv.ParseInt(s, 10, 64)\<close> and
  \<open>strconv.Atoi\<close> of the Go standard library, which the handlers call. The scan
  goes left to right and returns at the first byte it cannot take: for a byte that is not
  a decimal digit with \<open>(0, ErrSyntax)\<close>, for a digit that makes the value overflow
  with \<open>ErrRange\<close> and the largest value (in \<open>ParseInt\<close> the largest or the
  smallest one, by the sign).
\<close>

datatype NumError = ErrSyntax | ErrRange

definition isDigit :: "char \<Rightarrow> bool" where
  "isDigit c = (48 \<le> (of_char c :: nat) \<and> (of_char c :: nat) \<le> 57)"

definition digitVal :: "char \<Rightarrow> nat" where
  "digitVal c = (of_char c :: nat) - 48"

definition maxUint64 :: nat where
  "maxUint64 = 18446744073709551615"

definition cutoff64 :: nat where
  "cutoff64 = maxUint64 div 10 + 1"

fun parseUintLoop :: "nat \<Rightarrow> string \<Rightarrow> nat \<times> NumError option" where
  "parseUintLoop n [] = (n, None)"
| "parseUintLoop n (d # ds) =
     (if \<not> isDigit d then (0, Some ErrSyntax)
      else if n \<ge> cutoff64 then (maxUint64, Some ErrRange)
      else if n * 10 + digitVal d > maxUint64 then (maxUint64, Some ErrRange)
      else parseUintLoop (n * 10 + digitVal d) ds)"

definition ParseUint :: "string \<Rightarrow> nat \<times> NumError option" where
  "ParseUint s = (if s = [] then (0, Some ErrSyntax) else parseUintLoop 0 s)"

definition ParseInt :: "string \<Rightarrow> int \<times> NumError option" where
  "ParseInt s =
     (if s = [] then (0, Some ErrSyntax)
      else
        let neg = (hd s = CHR ''-'');
            s' = (if hd s = CHR ''+'' \<or> hd s = CHR ''-'' then tl s else s);
            (un, err) = ParseUint s'
        in if err = Some ErrSyntax then (0, err)
           else if \<not> neg \<and> un \<ge> 2 ^ 63 then (2 ^ 63 - 1, Some ErrRange)
           else if neg \<and> un > 2 ^ 63 then (- (2 ^ 63), Some ErrRange)
           else (if neg then - int un else int un, None))"

definition Atoi :: "string \<Rightarrow> int \<times> NumError option" where
  "Atoi s = ParseInt s"

text \<open>\<open>fmt.Sprintf("%d", n)\<close> for an unsigned \<open>n\<close>.\<close>

definition digitChar :: "nat \<Rightarrow> char" where
  "digitChar n = ''0123456789'' ! n"

fun showNat :: "nat \<Rightarrow> string" where
  "showNat n =
     (if n < 10 then [digitChar n]
      else showNat (n div 10) @ [digitChar (n mod 10)])"

declare showNat.simps [simp del]

section \<open>serveWait\<close>

text \<open>
  The poll loop of \<open>serveWait\<close>. What the loop reads at its \<open>i\<close>-th round comes
  from outside the handler: \<open>Index i\<close> is the value \<open>h.server.Index()\<close> returns
  then, \<open>aborted i\<close> and \<open>timedOut i\<close> say whether the two goroutines have stored
  their flags by then. The loop may run forever, so it is a partial function:
  \<open>None\<close> is a request that never returns. The second component of the result
  counts the rounds, that is the reads of the index.
\<close>

partial_function (option) waitLoop ::
  "(nat \<Rightarrow> nat) \<Rightarrow> (nat \<Rightarrow> bool) \<Rightarrow> (nat \<Rightarrow> bool) \<Rightarrow> nat \<Rightarrow> nat \<Rightarrow> ResponseWriter
     \<Rightarrow> (ResponseWriter \<times> nat) option" where
  "waitLoop Index aborted timedOut index i w =
     (if Index i \<ge> index then Some (Write (Bytes (showNat (Index i))) w, Suc i)
      else if aborted i then Some (w, Suc i)
      else if timedOut i then Some (WriteHeader StatusRequestTimeout w, Suc i)
      else waitLoop Index aborted timedOut index (Suc i) w)"

text \<open>
  \<open>serveWait\<close>. \<open>Get\<close> is \<open>r.URL.Query().Get\<close> (the empty string for a missing
  parameter). \<open>closeNotifier\<close> says whether the writer is an
  \<open>http.CloseNotifier\<close>, \<open>closed i\<close> whether the client has gone by round
  \<open>i\<close>, \<open>fired i\<close> whether the timer has fired by round \<open>i\<close>; the goroutine
  that waits for the timer exists only when \<open>timeout > 0\<close>.
\<close>

definition serveWait ::
  "(nat \<Rightarrow> nat) \<Rightarrow> bool \<Rightarrow> (nat \<Rightarrow> bool) \<Rightarrow> (nat \<Rightarrow> bool) \<Rightarrow> (string \<Rightarrow> string)
     \<Rightarrow> ResponseWriter \<Rightarrow> (ResponseWriter \<times> nat) option" where
  "serveWait Index closeNotifier closed fired Get w =
     (let index = fst (ParseUint (Get '':index''));
          timeout = fst (Atoi (Get ''timeout''))
      in if index = 0 then Some (WriteHeader StatusBadRequest w, 0)
         else waitLoop Index (\<lambda>i. closeNotifier \<and> closed i) (\<lambda>i. timeout > 0 \<and> fired i)
                index 0 w)"

section \<open>Joining a cluster at start-up\<close>

text \<open>
  \<open>log.Fatalf\<close> ends the process: a function that reaches it does not return to its
  caller.
\<close>

datatype outcome = Returned | Fatal string

text \<open>
  \<open>joinBroker\<close>. \<open>Join b u\<close> is \<open>b.Join(u)\<close>: its error and the broker after
  the call. The second component lists the calls of \<open>Join\<close> in the order they were
  made, each with its error; the source logs one line for each.
\<close>

fun joinBroker ::
  "('b \<Rightarrow> 'url \<Rightarrow> error option \<times> 'b) \<Rightarrow> 'b \<Rightarrow> 'url list
     \<Rightarrow> 'b \<times> ('url \<times> error option) list \<times> outcome" where
  "joinBroker Join b [] =
     (b, [], Fatal ''join: failed to connect broker to any specified server'')"
| "joinBroker Join b (u # us) =
     (case Join b u of
        (Some err, b') \<Rightarrow>
          (case joinBroker Join b' us of (b'', calls, r) \<Rightarrow> (b'', (u, Some err) # calls, r))
      | (None, b') \<Rightarrow> (b', [(u, None)], Returned))"

text \<open>\<open>joinServer\<close>: \<open>Join s u joinURL\<close> is \<open>s.Join(u, joinURL)\<close>.\<close>

fun joinServer ::
  "('s \<Rightarrow> 'url \<Rightarrow> 'url \<Rightarrow> error option \<times> 's) \<Rightarrow> 's \<Rightarrow> 'url \<Rightarrow> 'url list
     \<Rightarrow> 's \<times> ('url \<times> error option) list \<times> outcome" where
  "joinServer Join s u [] =
     (s, [], Fatal ''join: failed to connect data node to any specified server'')"
| "joinServer Join s u (joinURL # joinURLs) =
     (case Join s u joinURL of
        (Some err, s') \<Rightarrow>
          (case joinServer Join s' u joinURLs of
             (s'', calls, r) \<Rightarrow> (s'', (joinURL, Some err) # calls, r))
      | (None, s') \<Rightarrow> (s', [(joinURL, None)], Returned))"

section \<open>serveQuery\<close>




definition HasPrefix :: "string \<Rightarrow> string \<Rightarrow> bool" where
  "HasPrefix s p = (take (length p) s = p)"

definition HasSuffix :: "string \<Rightarrow> string \<Rightarrow> bool" where
  "HasSuffix s suf = (length suf \<le> length s \<and> drop (length s - length suf) s = suf)"

fun Contains :: "string \<Rightarrow> string \<Rightarrow> bool" where
  "Contains [] sub = (sub = [])"
| "Contains (c # cs) sub = (HasPrefix (c # cs) sub \<or> Contains cs sub)"

definition isAuthorizationError :: "error \<Rightarrow> bool" where
  "isAuthorizationError err = (case err of ErrAuthorize _ \<Rightarrow> True | ErrorString _ \<Rightarrow> False)"

definition isMeasurementNotFoundError :: "error \<Rightarrow> bool" where
  "isMeasurementNotFoundError err =
     (let s = Error err
      in HasPrefix s ''measurement'' \<and> HasSuffix s ''not found''
         \<or> Contains s ''measurement not found'')"

definition isTagNotFoundError :: "error \<Rightarrow> bool" where
  "isTagNotFoundError err = HasPrefix (Error err) ''unknown field or tag name''"

definition isFieldNotFoundError :: "error \<Rightarrow> bool" where
  "isFieldNotFoundError err = HasPrefix (Error err) ''field not found''"

text \<open>
  The state of the loop over the result channel. The channel carries pointers
  (\<open>*influxdb.Result\<close>, \<open>None\<close> for nil); \<open>heap\<close> maps a pointer to the result
  it points to, whose series is a slice into the arrays \<open>arrs\<close>, and \<open>res\<close> is
  \<open>res.Results\<close>, a list of such pointers.
\<close>

record QueryState =
  qw :: ResponseWriter
  heap :: "nat \<Rightarrow> Slice Result"
  arrs :: Arrays
  res :: "nat list"
  statusWritten :: bool

text \<open>What the marshaller reads through the pointer \<open>p\<close>.\<close>

definition readResult :: "(nat \<Rightarrow> Slice Result) \<Rightarrow> Arrays \<Rightarrow> nat \<Rightarrow> Row list Result" where
  "readResult h a p =
     \<lparr>StatementID = StatementID (h p), Series = readSlice a (Series (h p)), Err = Err (h p)\<rparr>"

definition marshalPretty :: "(nat \<Rightarrow> Slice Result) \<Rightarrow> Arrays \<Rightarrow> nat list \<Rightarrow> bool \<Rightarrow> chunk" where
  "marshalPretty h a rs pretty =
     MarshalResponse \<lparr>Results = map (readResult h a) rs, ResponseErr = None\<rparr> pretty"

text \<open>
  One round of \<open>for r := range results\<close>. In the buffered branch for a result of the
  statement of the last buffered result, \<open>cr.Series = append(cr.Series, r.Series...)\<close>
  reads the elements of \<open>r.Series\<close>, appends them to the slice of \<open>cr\<close>, and
  stores the new slice in the result \<open>cr\<close> points to.
\<close>

definition queryStep ::
  "(nat \<Rightarrow> nat \<Rightarrow> nat) \<Rightarrow> bool \<Rightarrow> bool \<Rightarrow> nat option \<Rightarrow> QueryState \<Rightarrow> QueryState" where
  "queryStep growslice chunked pretty r st =
     (let st1 =
            (if \<not> statusWritten st
             then st\<lparr>qw :=
                    (case (case r of None \<Rightarrow> None | Some p \<Rightarrow> Err (heap st p)) of
                       Some err \<Rightarrow>
                         if isAuthorizationError err then WriteHeader StatusUnauthorized (qw st)
                         else if isMeasurementNotFoundError err then WriteHeader StatusOK (qw st)
                         else if isTagNotFoundError err then WriteHeader StatusOK (qw st)
                         else if isFieldNotFoundError err then WriteHeader StatusOK (qw st)
                         else WriteHeader StatusInternalServerError (qw st)
                     | None \<Rightarrow> WriteHeader StatusOK (qw st)),
                    statusWritten := True\<rparr>
             else st)
      in case r of
           None \<Rightarrow> st1
         | Some p \<Rightarrow>
             if chunked
             then st1\<lparr>res := [p],
                      qw := Flush (Write (marshalPretty (heap st1) (arrs st1) [p] pretty) (qw st1))\<rparr>
             else
               let l = length (res st1)
               in if l = 0 then st1\<lparr>res := res st1 @ [p]\<rparr>
                  else if StatementID (heap st1 (res st1 ! (l - 1))) = StatementID (heap st1 p)
                  then (let cr = res st1 ! (l - 1);
                            (s, a) = appendSlice growslice (arrs st1) (Series (heap st1 cr))
                                       (readSlice (arrs st1) (Series (heap st1 p)))
                        in st1\<lparr>heap := (heap st1)(cr := (heap st1 cr)\<lparr>Series := s\<rparr>),
                               arrs := a\<rparr>)
                  else st1\<lparr>res := res st1 @ [p]\<rparr>)"

fun queryLoop ::
  "(nat \<Rightarrow> nat \<Rightarrow> nat) \<Rightarrow> bool \<Rightarrow> bool \<Rightarrow> nat option list \<Rightarrow> QueryState \<Rightarrow> QueryState" where
  "queryLoop growslice chunked pretty [] st = st"
| "queryLoop growslice chunked pretty (r # rs) st =
     queryLoop growslice chunked pretty rs (queryStep growslice chunked pretty r st)"



section \<open>serveWrite\<close>

text \<open>
  Modelled from the spec: \<open>client.BatchPoints\<close>, whose declaration is not among the
  sources (spec 3: Batch = {database, retentionPolicy, points}). The handler reads
  \<open>bp.Database\<close> and \<open>bp.RetentionPolicy\<close>; the points are passed on unread.
\<close>

record 'p BatchPoints =
  BP_Database :: string
  BP_RetentionPolicy :: string
  BP_Points :: 'p

text \<open>
  The verb \<open>%q\<close> of \<open>fmt\<close> on a string: double quotes around it, a backslash
  before a double quote or a backslash. The escapes Go writes for bytes that do not print
  are not spelled out.
\<close>

definition Quote :: "string \<Rightarrow> string" where
  "Quote s =
     [CHR 0x22] @ concat (map (\<lambda>c. if c = CHR 0x22 \<or> c = CHR 0x5C then [CHR 0x5C, c] else [c]) s)
       @ [CHR 0x22]"

text \<open>
  What \<open>serveWrite\<close> calls on the server and the user: \<open>h.server.DatabaseExists\<close>,
  \<open>user.Authorize(influxql.WritePrivilege, db)\<close>, \<open>user.Name\<close>,
  \<open>influxdb.NormalizeBatchPoints\<close> and \<open>h.server.WriteSeries\<close> (the new index, or
  an error).
\<close>

record ('u, 'p, 'n) WriteServer =
  DatabaseExists :: "string \<Rightarrow> bool"
  Authorize :: "'u \<Rightarrow> string \<Rightarrow> bool"
  UserName :: "'u \<Rightarrow> string"
  NormalizeBatchPoints :: "'p BatchPoints \<Rightarrow> error + 'n"
  WriteSeries :: "string \<Rightarrow> string \<Rightarrow> 'n \<Rightarrow> error + nat"

text \<open>
  What \<open>serveWrite\<close> reads of the request: the header \<open>Content-encoding\<close>, the
  error of \<open>gzip.NewReader(r.Body)\<close> if that call is made, and what
  \<open>dec.Decode(&bp)\<close> returns on the body. With \<open>WriteTrace\<close> the handler also logs
  the body; logging is left out.
\<close>

record 'p WriteRequest =
  ContentEncoding :: string
  gzipNewReader :: "error option"
  Decode :: "error + 'p BatchPoints"

definition writeError :: "ResponseWriter \<Rightarrow> Row list Result \<Rightarrow> nat \<Rightarrow> ResponseWriter" where
  "writeError w result statusCode =
     Write (EncodeResult result)
       (WriteHeader statusCode (HeaderAdd ''content-type'' ''application/json'' w))"

definition errResult :: "error \<Rightarrow> Row list Result" where
  "errResult err = \<lparr>StatementID = 0, Series = [], Err = Some err\<rparr>"

text \<open>
  \<open>serveWrite\<close>. The second component lists the calls of \<open>WriteSeries\<close>
  (database, retention policy, points) the handler made. In the authorization line the
  user is not nil: the line before returned otherwise.
\<close>

definition serveWrite ::
  "bool \<Rightarrow> ('u, 'p, 'n) WriteServer \<Rightarrow> 'p WriteRequest \<Rightarrow> 'u option \<Rightarrow> ResponseWriter
     \<Rightarrow> ResponseWriter \<times> (string \<times> string \<times> 'n) list" where
  "serveWrite requireAuthentication server r user w =
     (if ContentEncoding r = ''gzip'' \<and> gzipNewReader r \<noteq> None
      then (writeError w \<lparr>StatementID = 0, Series = [], Err = gzipNewReader r\<rparr> StatusBadRequest, [])
      else
        case Decode r of
          Inl err \<Rightarrow>
            if Error err = ''EOF'' then (WriteHeader StatusOK w, [])
            else (writeError w (errResult err) StatusInternalServerError, [])
        | Inr bp \<Rightarrow>
            if BP_Database bp = []
            then (writeError w (errResult (ErrorString ''database is required''))
                    StatusInternalServerError, [])
            else if \<not> DatabaseExists server (BP_Database bp)
            then (writeError w
                    (errResult (ErrorString (''database not found: '' @ Quote (BP_Database bp))))
                    StatusNotFound, [])
            else if requireAuthentication \<and> user = None
            then (writeError w
                    (errResult (ErrorString
                       (''user is required to write to database '' @ Quote (BP_Database bp))))
                    StatusUnauthorized, [])
            else if requireAuthentication
                    \<and> \<not> (case user of Some u \<Rightarrow> Authorize server u (BP_Database bp) | None \<Rightarrow> False)
            then (writeError w
                    (errResult (ErrorString
                       ((case user of Some u \<Rightarrow> Quote (UserName server u) | None \<Rightarrow> [])
                        @ '' user is not authorized to write to database ''
                        @ Quote (BP_Database bp))))
                    StatusUnauthorized, [])
            else
              case NormalizeBatchPoints server bp of
                Inl err \<Rightarrow> (writeError w (errResult err) StatusInternalServerError, [])
              | Inr points \<Rightarrow>
                  (case WriteSeries server (BP_Database bp) (BP_RetentionPolicy bp) points of
                     Inl err \<Rightarrow>
                       (writeError w (errResult err) StatusInternalServerError,
                        [(BP_Database bp, BP_RetentionPolicy bp, points)])
                   | Inr index \<Rightarrow>
                       (HeaderAdd ''X-InfluxDB-Index'' (showNat index) (WriteHeader StatusOK w),
                        [(BP_Database bp, BP_RetentionPolicy bp, points)])))"

text \<open>
  The body of a write request reaches the decoder unless the request announces gzip and
  \<open>gzip.NewReader\<close> refuses the body.
\<close>

definition reachesDecoder :: "'p WriteRequest \<Rightarrow> bool" where
  "reachesDecoder r \<longleftrightarrow> \<not> (ContentEncoding r = ''gzip'' \<and> gzipNewReader r \<noteq> None)"

section \<open>serveRunMapper\<close>

text \<open>
  Modelled from the spec: \<open>influxdb.RemoteMapper\<close> and \<open>influxdb.MapResponse\<close>,
  whose declarations are not among the sources. Spec 3: Remote Mapper Spec =
  {callExpression, timeRangeMin, timeRangeMax, chunkSize: integer}; Mapper Response
  frame = {data, completed, error}. The handler reads \<open>m.TMin\<close>, \<open>m.TMax\<close>,
  \<open>m.ChunkSize\<close> and \<open>m.CallExpr()\<close>, and it counts \<open>m.ChunkSize\<close> down with
  \<open>m.ChunkSize--\<close>: the chunk size is a Go integer, a machine word on which \<open>--\<close>
  wraps around. Its type is the parameter \<open>'c\<close> of the record, which the handler
  uses at \<open>'w word\<close>, a word of some width \<open>'w\<close>; \<open>sint\<close> reads such a word
  as the signed number.
  The two times are only handed on, never computed with.
\<close>

record 'c RemoteMapper =
  Call :: string
  TMin :: int
  TMax :: int
  ChunkSize :: 'c

record MapResponse =
  Data :: string
  Completed :: bool
  MapErr :: string

text \<open>
  The local mapper \<open>lm\<close> as the handler uses it, over a mapper state \<open>'m\<close>: each
  method returns its result and the state it leaves. \<open>IsEmpty\<close> only looks at the
  state. A value \<open>None\<close> of \<open>NextInterval\<close> is the nil interface.
\<close>

record ('m, 'call, 'v, 'c) LocalMapper =
  Open :: "'m \<Rightarrow> error option \<times> 'm"
  Close :: "'m \<Rightarrow> 'm"
  Begin :: "'m \<Rightarrow> 'call option \<Rightarrow> int \<Rightarrow> 'c \<Rightarrow> error option \<times> 'm"
  NextInterval :: "'m \<Rightarrow> (error + 'v option) \<times> 'm"
  IsEmpty :: "'m \<Rightarrow> int \<Rightarrow> bool"

text \<open>
  The two encoders of the session, \<open>json.Marshal(&v)\<close> on an interval value and
  \<open>json.Marshal\<close> on a \<open>MapResponse\<close>: the bytes, or the error.
\<close>

record 'v MapEncoders =
  marshalValue :: "'v option \<Rightarrow> error + string"
  marshalResponse :: "MapResponse \<Rightarrow> error + string"

text \<open>\<open>mapError\<close>: the marshalling error is dropped; a failed marshal writes no bytes.\<close>

definition mapError :: "'v MapEncoders \<Rightarrow> ResponseWriter \<Rightarrow> error \<Rightarrow> ResponseWriter" where
  "mapError enc w err =
     (case marshalResponse enc \<lparr>Data = [], Completed = False, MapErr = Error err\<rparr> of
        Inr b \<Rightarrow> Write (Bytes b) w
      | Inl e \<Rightarrow> Write (Bytes []) w)"

text \<open>
  How the loop of the session ends: through \<open>break\<close>, or through \<open>return\<close> after
  an error frame.
\<close>

datatype loop_exit = Break | Return

text \<open>
  The loop of \<open>serveRunMapper\<close>, from the mapper state \<open>s\<close>, the remaining chunk
  count \<open>chunkSize\<close> (\<open>m.ChunkSize\<close>) and the writer \<open>w\<close>. It may run forever
  (a mapper that is never empty), so it is a partial function.
\<close>

partial_function (option) mapperLoop ::
  "('m, 'call, 'v, 'w::len word) LocalMapper \<Rightarrow> 'v MapEncoders \<Rightarrow> bool \<Rightarrow> int \<Rightarrow> 'w word \<Rightarrow> 'm
     \<Rightarrow> ResponseWriter \<Rightarrow> (loop_exit \<times> 'm \<times> ResponseWriter) option" where
  "mapperLoop lm enc isRaw tmax chunkSize s w =
     (case NextInterval lm s of
        (Inl err, s') \<Rightarrow> Some (Return, s', mapError enc w err)
      | (Inr v, s') \<Rightarrow>
          if v = None \<and> IsEmpty lm s' tmax then Some (Break, s', w)
          else
            (case marshalValue enc v of
               Inl err \<Rightarrow> Some (Return, s', mapError enc w err)
             | Inr d \<Rightarrow>
                 (case marshalResponse enc \<lparr>Data = d, Completed = False, MapErr = []\<rparr> of
                    Inl err \<Rightarrow> Some (Return, s', mapError enc w err)
                  | Inr b \<Rightarrow>
                      if \<not> isRaw \<and> chunkSize - 1 = 0
                      then Some (Break, s', Flush (Write (Bytes b) w))
                      else if IsEmpty lm s' tmax
                      then Some (Break, s', Flush (Write (Bytes b) w))
                      else mapperLoop lm enc isRaw tmax
                             (if isRaw then chunkSize else chunkSize - 1) s'
                             (Flush (Write (Bytes b) w)))))"

text \<open>
  \<open>serveRunMapper\<close>. \<open>decoded\<close> is what \<open>json.NewDecoder(r.Body).Decode(&m)\<close>
  gives, \<open>StartLocalMapper\<close> is \<open>h.server.StartLocalMapper\<close>, \<open>CallExpr\<close> is
  \<open>m.CallExpr()\<close> (no call for a raw query). The result is the response and, once the
  mapper was opened, the mapper state that the deferred \<open>lm.Close()\<close> leaves.
\<close>

definition serveRunMapper ::
  "('m, 'call, 'v, 'w::len word) LocalMapper \<Rightarrow> 'v MapEncoders \<Rightarrow> ('w word RemoteMapper \<Rightarrow> error + 'm)
     \<Rightarrow> ('w word RemoteMapper \<Rightarrow> error + 'call option) \<Rightarrow> error + 'w word RemoteMapper
     \<Rightarrow> ResponseWriter \<Rightarrow> (ResponseWriter \<times> 'm option) option" where
  "serveRunMapper lm enc StartLocalMapper CallExpr decoded w =
     (let w1 = WriteHeader 200 (HeaderAdd ''content-type'' ''application/json'' w)
      in case decoded of
           Inl err \<Rightarrow> Some (mapError enc w1 err, None)
         | Inr m \<Rightarrow>
             (case StartLocalMapper m of
                Inl err \<Rightarrow> Some (mapError enc w1 err, None)
              | Inr s0 \<Rightarrow>
                  (case Open lm s0 of
                     (Some err, s1) \<Rightarrow> Some (mapError enc w1 err, Some s1)
                   | (None, s1) \<Rightarrow>
                       (case CallExpr m of
                          Inl err \<Rightarrow> Some (mapError enc w1 err, Some (Close lm s1))
                        | Inr call \<Rightarrow>
                            (case Begin lm s1 call (TMin m) (ChunkSize m) of
                               (Some err, s2) \<Rightarrow> Some (mapError enc w1 err, Some (Close lm s2))
                             | (None, s2) \<Rightarrow>
                                 (case mapperLoop lm enc (call = None) (TMax m) (ChunkSize m) s2 w1 of
                                    None \<Rightarrow> None
                                  | Some (Return, s3, w2) \<Rightarrow> Some (w2, Some (Close lm s3))
                                  | Some (Break, s3, w2) \<Rightarrow>
                                      (case marshalResponse enc
                                              \<lparr>Data = [], Completed = True, MapErr = []\<rparr> of
                                         Inl err \<Rightarrow> Some (mapError enc w2 err, Some (Close lm s3))
                                       | Inr d \<Rightarrow>
                                           Some (Flush (Write (Bytes d) w2),
                                                 Some (Close lm s3)))))))))"

section \<open>serveDump\<close>
















section \<open>What the claims say, in the words of the specification\<close>

text \<open>
  The join procedure as the specification words it: the candidates are tried one after
  the other in the listed order, the first one that accepts ends the procedure, and
  when every candidate refuses the process ends. \<open>answers Join b urls\<close> is what
  \<open>Join\<close> answers to each candidate when the candidates are tried in order from the
  state \<open>b\<close>, and \<open>afterCalls Join b us\<close> is the state the calls on \<open>us\<close>
  leave. With \<open>k\<close> the number of candidates that refuse before the first one accepts,
  \<open>joinSpec\<close> is the state after the first \<open>k + 1\<close> calls, those calls with their
  answers, and a return to the caller; when no candidate accepts, it is the state after
  all calls, all calls with their answers, and the end of the process with the message
  \<open>msg\<close>.
\<close>

fun afterCalls :: "('b \<Rightarrow> 'url \<Rightarrow> error option \<times> 'b) \<Rightarrow> 'b \<Rightarrow> 'url list \<Rightarrow> 'b" where
  "afterCalls Join b [] = b"
| "afterCalls Join b (u # us) = afterCalls Join (snd (Join b u)) us"

fun answers :: "('b \<Rightarrow> 'url \<Rightarrow> error option \<times> 'b) \<Rightarrow> 'b \<Rightarrow> 'url list \<Rightarrow> error option list" where
  "answers Join b [] = []"
| "answers Join b (u # us) = fst (Join b u) # answers Join (snd (Join b u)) us"

definition joinSpec ::
  "('b \<Rightarrow> 'url \<Rightarrow> error option \<times> 'b) \<Rightarrow> 'b \<Rightarrow> 'url list \<Rightarrow> string
     \<Rightarrow> 'b \<times> ('url \<times> error option) list \<times> outcome" where
  "joinSpec Join b urls msg =
     (let k = length (takeWhile (\<lambda>a. a \<noteq> None) (answers Join b urls))
      in if k < length urls
         then (afterCalls Join b (take (Suc k) urls),
               take (Suc k) (zip urls (answers Join b urls)), Returned)
         else (afterCalls Join b urls, zip urls (answers Join b urls), Fatal msg))"












text \<open>
  The course of a session for the statements about it: \<open>mstate lm s k\<close> is the
  mapper state after \<open>k\<close> calls of \<open>NextInterval\<close> from \<open>s\<close>,
  \<open>intervalValues lm s n\<close> the values of the first \<open>n\<close> calls,
  \<open>frameBytes enc v\<close> the frame written for the value \<open>v\<close>, and
  \<open>writeFrames\<close> writes and flushes frames one after the other.
\<close>

fun mstate :: "('m, 'call, 'v, 'c) LocalMapper \<Rightarrow> 'm \<Rightarrow> nat \<Rightarrow> 'm" where
  "mstate lm s 0 = s"
| "mstate lm s (Suc k) = mstate lm (snd (NextInterval lm s)) k"

definition intervalValue :: "('m, 'call, 'v, 'c) LocalMapper \<Rightarrow> 'm \<Rightarrow> 'v option" where
  "intervalValue lm s = (case fst (NextInterval lm s) of Inr v \<Rightarrow> v | Inl e \<Rightarrow> None)"

fun intervalValues :: "('m, 'call, 'v, 'c) LocalMapper \<Rightarrow> 'm \<Rightarrow> nat \<Rightarrow> 'v option list" where
  "intervalValues lm s 0 = []"
| "intervalValues lm s (Suc k) =
     intervalValue lm s # intervalValues lm (snd (NextInterval lm s)) k"

definition frameBytes :: "'v MapEncoders \<Rightarrow> 'v option \<Rightarrow> string" where
  "frameBytes enc v =
     (case marshalValue enc v of
        Inr d \<Rightarrow>
          (case marshalResponse enc \<lparr>Data = d, Completed = False, MapErr = []\<rparr> of
             Inr b \<Rightarrow> b
           | Inl e \<Rightarrow> [])
      | Inl e \<Rightarrow> [])"

fun writeFrames :: "string list \<Rightarrow> ResponseWriter \<Rightarrow> ResponseWriter" where
  "writeFrames [] w = w"
| "writeFrames (b # bs) w = writeFrames bs (Flush (Write (Bytes b) w))"

text \<open>
  The mapper is exhausted for the first time after its \<open>n\<close>-th interval: the
  predicate \<open>IsEmpty(TMax)\<close> holds after \<open>n\<close> calls of \<open>NextInterval\<close> and
  after no smaller positive number of calls.
\<close>

definition firstEmptyAt :: "('m, 'call, 'v, 'c) LocalMapper \<Rightarrow> int \<Rightarrow> 'm \<Rightarrow> nat \<Rightarrow> bool" where
  "firstEmptyAt lm tmax s n \<longleftrightarrow>
     1 \<le> n \<and> IsEmpty lm (mstate lm s n) tmax
     \<and> list_all (\<lambda>k. \<not> IsEmpty lm (mstate lm s k) tmax) [1..<n]"

text \<open>
  The number of intervals until exhaustion, as frames: the intervals up to the one that
  exhausts the mapper, without that last one when it is nil (a nil interval on an empty
  mapper is the end signal and is not sent).
\<close>

definition framesUntilExhaustion :: "('m, 'call, 'v, 'c) LocalMapper \<Rightarrow> 'm \<Rightarrow> nat \<Rightarrow> nat" where
  "framesUntilExhaustion lm s n =
     (if intervalValue lm (mstate lm s (n - 1)) = None then n - 1 else n)"

text \<open>
  Nothing fails in the first \<open>k\<close> intervals of a session that starts in the mapper
  state \<open>s\<close>: each call of \<open>NextInterval\<close> succeeds, and each interval value
  that is to be sent, and its frame, encode. (After a nil interval on an empty mapper
  nothing more is called or encoded.)
\<close>

fun noErrorWithin ::
  "('m, 'call, 'v, 'c) LocalMapper \<Rightarrow> 'v MapEncoders \<Rightarrow> int \<Rightarrow> 'm \<Rightarrow> nat \<Rightarrow> bool" where
  "noErrorWithin lm enc tmax s 0 = True"
| "noErrorWithin lm enc tmax s (Suc k) =
     (case NextInterval lm s of
        (Inl err, s') \<Rightarrow> False
      | (Inr v, s') \<Rightarrow>
          if v = None \<and> IsEmpty lm s' tmax then True
          else
            (case marshalValue enc v of
               Inl err \<Rightarrow> False
             | Inr d \<Rightarrow>
                 (case marshalResponse enc \<lparr>Data = d, Completed = False, MapErr = []\<rparr> of
                    Inl err \<Rightarrow> False
                  | Inr b \<Rightarrow> noErrorWithin lm enc tmax s' k)))"

text \<open>
  The session has neither failed nor met an exhausted mapper in its first \<open>k\<close>
  intervals: each of them was obtained, encoded and written, and \<open>IsEmpty(TMax)\<close>
  was false after each. Such a session goes on after its \<open>k\<close>-th interval unless
  the chunk counter stops it.
\<close>

fun stillRunning ::
  "('m, 'call, 'v, 'c) LocalMapper \<Rightarrow> 'v MapEncoders \<Rightarrow> int \<Rightarrow> 'm \<Rightarrow> nat \<Rightarrow> bool" where
  "stillRunning lm enc tmax s 0 = True"
| "stillRunning lm enc tmax s (Suc k) =
     (case NextInterval lm s of
        (Inl err, s') \<Rightarrow> False
      | (Inr v, s') \<Rightarrow>
          (case marshalValue enc v of
             Inl err \<Rightarrow> False
           | Inr d \<Rightarrow>
               (case marshalResponse enc \<lparr>Data = d, Completed = False, MapErr = []\<rparr> of
                  Inl err \<Rightarrow> False
                | Inr b \<Rightarrow> \<not> IsEmpty lm s' tmax \<and> stillRunning lm enc tmax s' k)))"

text \<open>
  The number of decrements that take the chunk counter from \<open>c\<close> to zero: \<open>c\<close>
  itself when it is positive, and a whole turn of the word when \<open>c\<close> is zero.
\<close>

definition counterStop :: "'w::len word \<Rightarrow> nat" where
  "counterStop c = (if c = 0 then 2 ^ LENGTH('w) else unat c)"

text \<open>Mappers and encoders to run the session on.\<close>

definition exampleMapper :: "(nat, unit, nat, 64 word) LocalMapper" where
  "exampleMapper =
     \<lparr>Open = (\<lambda>s. (None, s)), Close = (\<lambda>s. s), Begin = (\<lambda>s call tmin c. (None, s)),
      NextInterval = (\<lambda>s. (Inr (if s = 1 then None else Some s), Suc s)),
      IsEmpty = (\<lambda>s tmax. 3 \<le> s)\<rparr>"

definition endlessMapper :: "(nat, unit, nat, 64 word) LocalMapper" where
  "endlessMapper =
     \<lparr>Open = (\<lambda>s. (None, s)), Close = (\<lambda>s. s), Begin = (\<lambda>s call tmin c. (None, s)),
      NextInterval = (\<lambda>s. (Inr (Some s), Suc s)),
      IsEmpty = (\<lambda>s tmax. False)\<rparr>"

definition exampleEncoders :: "nat MapEncoders" where
  "exampleEncoders =
     \<lparr>marshalValue = (\<lambda>v. Inr (case v of None \<Rightarrow> ''null'' | Some k \<Rightarrow> showNat k)),
      marshalResponse =
        (\<lambda>r. Inr (if Completed r then ''completed''
                  else if MapErr r \<noteq> [] then ''error: '' @ MapErr r
                  else ''data: '' @ Data r))\<rparr>"

definition failingEncoders :: "nat MapEncoders" where
  "failingEncoders =
     exampleEncoders\<lparr>marshalValue := (\<lambda>v. Inl (ErrorString ''json: unsupported value''))\<rparr>"

section \<open>Auxiliary definitions\<close>


text \<open>
  The buffered branch of the loop on plain values, for the proofs: \<open>stepV\<close> is one
  round on the list of results gathered so far, \<open>mergeV\<close> the loop.
\<close>

definition stepV :: "Row list Result list \<Rightarrow> Row list Result \<Rightarrow> Row list Result list" where
  "stepV acc r =
     (if acc = [] then [r]
      else if StatementID (last acc) = StatementID r
      then butlast acc @ [(last acc)\<lparr>Series := Series (last acc) @ Series r\<rparr>]
      else acc @ [r])"

















section \<open>Properties\<close>

subsection \<open>The response writer\<close>

lemma WriteHeader_fresh:
  "status w = None \<Longrightarrow> status (WriteHeader c w) = Some c"
  by (simp add: WriteHeader_def)

lemma WriteHeader_body [simp]: "body (WriteHeader c w) = body w"
  by (simp add: WriteHeader_def)

lemma WriteHeader_sent: "status w \<noteq> None \<Longrightarrow> WriteHeader c w = w"
  by (auto simp: WriteHeader_def)

lemma Write_status_fresh: "status w = None \<Longrightarrow> status (Write b w) = Some 200"
  by (simp add: Write_def WriteHeader_def Let_def)


lemma Write_body [simp]: "body (Write b w) = body w @ [b]"
  by (simp add: Write_def Let_def)

subsection \<open>strconv\<close>

lemmas strconv_defs =
  ParseUint_def ParseInt_def Atoi_def isDigit_def digitVal_def cutoff64_def maxUint64_def

lemma parseUintLoop_syntax:
  "parseUintLoop n s = (v, Some ErrSyntax) \<Longrightarrow> v = 0"
  by (induction s arbitrary: n) (auto split: if_splits)

lemma ParseUint_syntax: "snd (ParseUint s) = Some ErrSyntax \<Longrightarrow> fst (ParseUint s) = 0"
  using parseUintLoop_syntax [of 0 s "fst (parseUintLoop 0 s)"]
  by (cases "parseUintLoop 0 s") (auto simp: ParseUint_def split: if_splits)

lemma Atoi_syntax: "snd (Atoi s) = Some ErrSyntax \<Longrightarrow> fst (Atoi s) = 0"
  by (auto simp: Atoi_def ParseInt_def Let_def split: if_splits prod.splits)

subsection \<open>The poll loop\<close>

text \<open>
  If round \<open>i + d\<close> is the first from \<open>i\<close> on at which one of the three exits is
  open, the loop returns there, with the exit the source's order picks.
\<close>

lemma waitLoop_at:
  assumes "\<forall>k. i \<le> k \<and> k < i + d \<longrightarrow> Index k < index \<and> \<not> ab k \<and> \<not> tout k"
    and "Index (i + d) \<ge> index \<or> ab (i + d) \<or> tout (i + d)"
  shows "waitLoop Index ab tout index i w =
           Some (if Index (i + d) \<ge> index then Write (Bytes (showNat (Index (i + d)))) w
                 else if ab (i + d) then w else WriteHeader StatusRequestTimeout w, Suc (i + d))"
  using assms
proof (induction d arbitrary: i)
  case 0
  then show ?case by (subst waitLoop.simps) auto
next
  case (Suc d)
  have step: "Index i < index \<and> \<not> ab i \<and> \<not> tout i"
    using Suc.prems(1) by simp
  have "\<forall>k. Suc i \<le> k \<and> k < Suc i + d \<longrightarrow> Index k < index \<and> \<not> ab k \<and> \<not> tout k"
    using Suc.prems(1) by simp
  moreover have "Index (Suc i + d) \<ge> index \<or> ab (Suc i + d) \<or> tout (Suc i + d)"
    using Suc.prems(2) by simp
  ultimately have "waitLoop Index ab tout index (Suc i) w =
           Some (if Index (Suc i + d) \<ge> index then Write (Bytes (showNat (Index (Suc i + d)))) w
                 else if ab (Suc i + d) then w else WriteHeader StatusRequestTimeout w, Suc (Suc i + d))"
    by (rule Suc.IH)
  with step show ?case by (subst waitLoop.simps) simp
qed

text \<open>A loop that returns has met an open exit.\<close>

lemma waitLoop_Some_cond:
  assumes "waitLoop Index ab tout index i w = Some r"
  shows "\<exists>k\<ge>i. Index k \<ge> index \<or> ab k \<or> tout k"
proof (rule waitLoop.raw_induct
    [where P = "\<lambda>I a t x i w r. \<exists>k\<ge>i. I k \<ge> x \<or> a k \<or> t k", OF _ assms])
  fix f I a t x i w r
  assume IH: "\<And>I a t x i w r. f I a t x i w = Some r \<Longrightarrow> \<exists>k\<ge>i. I k \<ge> x \<or> a k \<or> t k"
    and eq: "(if x \<le> I i then Some (Write (Bytes (showNat (I i))) w, Suc i)
        else if a i then Some (w, Suc i)
        else if t i then Some (WriteHeader StatusRequestTimeout w, Suc i)
        else f I a t x (Suc i) w) = Some r"
  show "\<exists>k\<ge>i. I k \<ge> x \<or> a k \<or> t k"
  proof (cases "x \<le> I i \<or> a i \<or> t i")
    case True
    then show ?thesis by blast
  next
    case False
    with eq have "f I a t x (Suc i) w = Some r" by simp
    from IH[OF this] obtain k where "k \<ge> Suc i" "I k \<ge> x \<or> a k \<or> t k" by blast
    then show ?thesis by (intro exI[of _ k]) simp
  qed
qed

lemma waitLoop_never:
  assumes "\<forall>k. Index k < index \<and> \<not> ab k \<and> \<not> tout k"
  shows "waitLoop Index ab tout index i w = None"
proof (cases "waitLoop Index ab tout index i w")
  case None
  then show ?thesis .
next
  case (Some r)
  from waitLoop_Some_cond[OF this] obtain k where "Index k \<ge> index \<or> ab k \<or> tout k" by blast
  with assms show ?thesis by (metis not_le)
qed

text \<open>Every result of the loop is one of its three exits, at the first round that opens one.\<close>

lemma waitLoop_Some:
  assumes "waitLoop Index ab tout index i w = Some r"
  shows "\<exists>d. (\<forall>k. i \<le> k \<and> k < i + d \<longrightarrow> Index k < index \<and> \<not> ab k \<and> \<not> tout k)
           \<and> (Index (i + d) \<ge> index \<or> ab (i + d) \<or> tout (i + d))
           \<and> r = (if Index (i + d) \<ge> index then Write (Bytes (showNat (Index (i + d)))) w
                   else if ab (i + d) then w else WriteHeader StatusRequestTimeout w, Suc (i + d))"
proof -
  define C where "C k \<longleftrightarrow> i \<le> k \<and> (Index k \<ge> index \<or> ab k \<or> tout k)" for k
  from waitLoop_Some_cond[OF assms] have ex: "\<exists>k. C k" by (auto simp: C_def)
  define j where "j = (LEAST k. C k)"
  have Cj: "C j" unfolding j_def using ex by (metis LeastI)
  have least: "\<And>k. k < j \<Longrightarrow> \<not> C k" unfolding j_def by (rule not_less_Least)
  define d where "d = j - i"
  have jd: "i + d = j" using Cj by (simp add: d_def C_def)
  have before: "\<forall>k. i \<le> k \<and> k < i + d \<longrightarrow> Index k < index \<and> \<not> ab k \<and> \<not> tout k"
  proof (intro allI impI)
    fix k assume k: "i \<le> k \<and> k < i + d"
    then have "\<not> C k" using least jd by simp
    with k show "Index k < index \<and> \<not> ab k \<and> \<not> tout k" by (auto simp: C_def)
  qed
  have at: "Index (i + d) \<ge> index \<or> ab (i + d) \<or> tout (i + d)"
    using Cj jd by (simp add: C_def)
  from waitLoop_at[OF before at, of w] assms
  have "r = (if Index (i + d) \<ge> index then Write (Bytes (showNat (Index (i + d)))) w
             else if ab (i + d) then w else WriteHeader StatusRequestTimeout w, Suc (i + d))"
    by simp
  with before at show ?thesis by blast
qed

subsection \<open>serveWait\<close>

text \<open>
  C7. A request to \<open>GET /data/wait/:index\<close> whose parsed index is zero gets status 400
  at once, whatever index the node has (\<open>Index\<close> is arbitrary) and whatever the client
  and the timer do: the result is there without a single round of the poll loop (the
  round count is 0), and nothing is written to the body.
\<close>

theorem serveWait_index_zero_bad_request:
  assumes "fst (ParseUint (Get '':index'')) = 0" and "status w = None"
  shows "\<exists>w'. serveWait Index closeNotifier closed fired Get w = Some (w', 0)
           \<and> status w' = Some StatusBadRequest \<and> StatusBadRequest = 400 \<and> body w' = body w"
proof -
  have "serveWait Index closeNotifier closed fired Get w = Some (WriteHeader StatusBadRequest w, 0)"
    unfolding serveWait_def Let_def using assms(1) by (simp only: simp_thms if_True)
  moreover have "status (WriteHeader StatusBadRequest w) = Some StatusBadRequest"
    using assms(2) by (rule WriteHeader_fresh)
  moreover have "StatusBadRequest = 400" by (simp only: StatusBadRequest_def)
  moreover have "body (WriteHeader StatusBadRequest w) = body w" by (rule WriteHeader_body)
  ultimately show ?thesis by blast
qed

theorem serveWait_index_zero_bad_request_witness:
  "\<exists>w'. serveWait (\<lambda>i. 7) True (\<lambda>i. False) (\<lambda>i. False)
            (\<lambda>k. if k = '':index'' then ''0'' else if k = ''timeout'' then ''100'' else [])
            \<lparr>header = [], status = None, sent_header = [], body = []\<rparr> = Some (w', 0)
         \<and> status w' = Some StatusBadRequest \<and> StatusBadRequest = 400 \<and> body w' = []"
proof -
  have h: "fst (ParseUint ''0'') = 0" by (simp add: strconv_defs)
  show ?thesis
    using serveWait_index_zero_bad_request
      [of "\<lambda>k. if k = '':index'' then ''0'' else if k = ''timeout'' then ''100'' else []"
          "\<lparr>header = [], status = None, sent_header = [], body = []\<rparr>"
          "\<lambda>i. 7" True "\<lambda>i. False" "\<lambda>i. False"] h
    by simp
qed

text \<open>
  C10, as the claim states it, fails. The index \<open>99999999999999999999x\<close> is not a
  number, yet \<open>strconv.ParseUint\<close> meets the overflow of its twenty digits before it
  reaches the \<open>x\<close>: it returns the largest 64-bit value with a range error, not
  zero. The request is not rejected but enters the poll loop (here the client leaves
  during the first round, and no status 400 is written).
\<close>

theorem serveWait_nonnumeric_index_counterexample:
  "\<not> list_all isDigit ''99999999999999999999x''
   \<and> ParseUint ''99999999999999999999x'' = (maxUint64, Some ErrRange)
   \<and> maxUint64 \<noteq> 0
   \<and> serveWait (\<lambda>i. 5) True (\<lambda>i. True) (\<lambda>i. False)
         (\<lambda>k. if k = '':index'' then ''99999999999999999999x'' else [])
         freshResponse = Some (freshResponse, 1)
   \<and> status freshResponse \<noteq> Some StatusBadRequest"
proof -
  have p: "ParseUint ''99999999999999999999x'' = (maxUint64, Some ErrRange)"
    by (simp add: strconv_defs)
  have a: "fst (Atoi []) = 0" by (simp add: strconv_defs)
  have d: "\<not> list_all isDigit ''99999999999999999999x''" by (simp add: isDigit_def)
  have m: "maxUint64 \<noteq> 0" by (simp add: maxUint64_def)
  have l: "waitLoop (\<lambda>i. 5) (\<lambda>i. True \<and> True) (\<lambda>i. (0::int) < 0 \<and> False) maxUint64 0 freshResponse
             = Some (freshResponse, 1)"
    by (subst waitLoop.simps) (simp add: maxUint64_def)
  have s: "serveWait (\<lambda>i. 5) True (\<lambda>i. True) (\<lambda>i. False)
         (\<lambda>k. if k = '':index'' then ''99999999999999999999x'' else [])
         freshResponse = Some (freshResponse, 1)"
    unfolding serveWait_def Let_def using p a m l by simp
  have f: "status freshResponse \<noteq> Some StatusBadRequest" by (simp add: freshResponse_def)
  from d p m s f show ?thesis by blast
qed

text \<open>
  C10, amended. Both parse errors are dropped (\<open>index, _ :=\<close>, \<open>timeout, _ :=\<close>).
  An index that \<open>strconv.ParseUint\<close> rejects with a syntax error parses to zero: the
  request gets status 400 without a round of the loop, exactly as with the explicit index
  \<open>0\<close>. A timeout that \<open>strconv.Atoi\<close> rejects with a syntax error, as it does
  a missing one, parses to zero: the request behaves as with the explicit timeout
  \<open>0\<close>, the timer plays no part, no result carries status 408, and, for an index
  that is not zero, the request never returns as long as the index is not reached and the
  client stays.
\<close>

theorem serveWait_parse_errors_ignored:
  "(snd (ParseUint (Get '':index'')) = Some ErrSyntax \<longrightarrow>
      serveWait Index cn closed fired Get w = Some (WriteHeader StatusBadRequest w, 0)
      \<and> serveWait Index cn closed fired Get w
          = serveWait Index cn closed fired (Get('':index'' := ''0'')) w)
   \<and> (snd (Atoi (Get ''timeout'')) = Some ErrSyntax \<longrightarrow>
      serveWait Index cn closed fired Get w
          = serveWait Index cn closed fired (Get(''timeout'' := ''0'')) w
      \<and> serveWait Index cn closed fired Get w = serveWait Index cn closed (\<lambda>i. False) Get w
      \<and> (\<forall>r. status w = None \<and> serveWait Index cn closed fired Get w = Some r
             \<longrightarrow> status (fst r) \<noteq> Some StatusRequestTimeout)
      \<and> (fst (ParseUint (Get '':index'')) \<noteq> 0
           \<and> (\<forall>k. Index k < fst (ParseUint (Get '':index'')) \<and> \<not> (cn \<and> closed k))
           \<longrightarrow> serveWait Index cn closed fired Get w = None))
   \<and> (Get ''timeout'' = [] \<longrightarrow> snd (Atoi (Get ''timeout'')) = Some ErrSyntax)"
proof (intro conjI impI)
  assume e: "snd (ParseUint (Get '':index'')) = Some ErrSyntax"
  then have z: "fst (ParseUint (Get '':index'')) = 0" by (rule ParseUint_syntax)
  show r: "serveWait Index cn closed fired Get w = Some (WriteHeader StatusBadRequest w, 0)"
    unfolding serveWait_def Let_def using z by (simp only: simp_thms if_True)
  have z0: "fst (ParseUint ''0'') = 0" by (simp add: strconv_defs)
  have "serveWait Index cn closed fired (Get('':index'' := ''0'')) w
          = Some (WriteHeader StatusBadRequest w, 0)"
    unfolding serveWait_def Let_def using z0 by (simp only: fun_upd_same simp_thms if_True)
  with r show "serveWait Index cn closed fired Get w
          = serveWait Index cn closed fired (Get('':index'' := ''0'')) w" by simp
next
  assume e: "snd (Atoi (Get ''timeout'')) = Some ErrSyntax"
  then have z: "fst (Atoi (Get ''timeout'')) = 0" by (rule Atoi_syntax)
  have z0: "fst (Atoi ''0'') = 0" by (simp add: strconv_defs)
  have ne: "(Get(''timeout'' := ''0'')) '':index'' = Get '':index''" by simp
  show "serveWait Index cn closed fired Get w
          = serveWait Index cn closed fired (Get(''timeout'' := ''0'')) w"
    unfolding serveWait_def Let_def using z z0 by (simp only: fun_upd_same ne)
  show nt: "serveWait Index cn closed fired Get w = serveWait Index cn closed (\<lambda>i. False) Get w"
    unfolding serveWait_def Let_def using z by simp
  show "\<forall>r. status w = None \<and> serveWait Index cn closed fired Get w = Some r
             \<longrightarrow> status (fst r) \<noteq> Some StatusRequestTimeout"
  proof (intro allI impI)
    fix r assume a: "status w = None \<and> serveWait Index cn closed fired Get w = Some r"
    show "status (fst r) \<noteq> Some StatusRequestTimeout"
    proof (cases "fst (ParseUint (Get '':index'')) = 0")
      case True
      then have "serveWait Index cn closed fired Get w = Some (WriteHeader StatusBadRequest w, 0)"
        unfolding serveWait_def Let_def by (simp only: simp_thms if_True)
      with a show ?thesis
        by (auto simp: WriteHeader_fresh StatusBadRequest_def StatusRequestTimeout_def)
    next
      case False
      then have "waitLoop Index (\<lambda>i. cn \<and> closed i) (\<lambda>i. False)
                   (fst (ParseUint (Get '':index''))) 0 w = Some r"
        using a z unfolding serveWait_def Let_def by simp
      from waitLoop_Some[OF this] obtain d where
        "r = (if Index (0 + d) \<ge> fst (ParseUint (Get '':index''))
              then Write (Bytes (showNat (Index (0 + d)))) w
              else if cn \<and> closed (0 + d) then w else WriteHeader StatusRequestTimeout w, Suc (0 + d))"
        and "Index (0 + d) \<ge> fst (ParseUint (Get '':index'')) \<or> (cn \<and> closed (0 + d)) \<or> False"
        by blast
      with a show ?thesis
        by (auto simp: Write_status_fresh StatusRequestTimeout_def split: if_splits)
    qed
  qed
  show "serveWait Index cn closed fired Get w = None"
    if h: "fst (ParseUint (Get '':index'')) \<noteq> 0
           \<and> (\<forall>k. Index k < fst (ParseUint (Get '':index'')) \<and> \<not> (cn \<and> closed k))"
  proof -
    have "waitLoop Index (\<lambda>i. cn \<and> closed i) (\<lambda>i. False)
                   (fst (ParseUint (Get '':index''))) 0 w = None"
      by (rule waitLoop_never) (use h in blast)
    moreover have "(\<lambda>i. fst (Atoi (Get ''timeout'')) > 0 \<and> fired i) = (\<lambda>i. False)"
      using z by simp
    ultimately show ?thesis using h unfolding serveWait_def Let_def by (simp only: if_False)
  qed
next
  assume "Get ''timeout'' = []"
  then show "snd (Atoi (Get ''timeout'')) = Some ErrSyntax" by (simp add: strconv_defs)
qed

theorem serveWait_parse_errors_ignored_witness:
  "serveWait (\<lambda>i. 7) True (\<lambda>i. False) (\<lambda>i. True)
       (\<lambda>k. if k = '':index'' then ''abc'' else []) freshResponse
     = Some (WriteHeader StatusBadRequest freshResponse, 0)
   \<and> serveWait (\<lambda>i. 3) True (\<lambda>i. False) (\<lambda>i. True)
       (\<lambda>k. if k = '':index'' then ''9'' else if k = ''timeout'' then ''soon'' else [])
       freshResponse = None"
proof -
  have e1: "snd (ParseUint ''abc'') = Some ErrSyntax" by (simp add: strconv_defs)
  have e2: "snd (Atoi ''soon'') = Some ErrSyntax" by (simp add: strconv_defs)
  have i2: "fst (ParseUint ''9'') = 9" by (simp add: strconv_defs)
  have a: "serveWait (\<lambda>i. 7) True (\<lambda>i. False) (\<lambda>i. True)
       (\<lambda>k. if k = '':index'' then ''abc'' else []) freshResponse
     = Some (WriteHeader StatusBadRequest freshResponse, 0)"
    using serveWait_parse_errors_ignored
      [of "\<lambda>k. if k = '':index'' then ''abc'' else []" "\<lambda>i. 7" True "\<lambda>i. False" "\<lambda>i. True"
          freshResponse] e1
    by simp
  let ?G = "\<lambda>k. if k = '':index'' then ''9'' else if k = ''timeout'' then ''soon'' else []"
  have h: "snd (Atoi (?G ''timeout'')) = Some ErrSyntax" using e2 by simp
  have i: "fst (ParseUint (?G '':index'')) \<noteq> 0
           \<and> (\<forall>k. (\<lambda>i. 3) k < fst (ParseUint (?G '':index'')) \<and> \<not> (True \<and> (\<lambda>i. False) k))"
    using i2 by simp
  have b: "serveWait (\<lambda>i. 3) True (\<lambda>i. False) (\<lambda>i. True) ?G freshResponse = None"
    using serveWait_parse_errors_ignored
      [of ?G "\<lambda>i. 3" True "\<lambda>i. False" "\<lambda>i. True" freshResponse] h i
    by blast
  from a b show ?thesis by blast
qed

subsection \<open>Joining a cluster\<close>

lemma length_answers [simp]: "length (answers Join b urls) = length urls"
  by (induction urls arbitrary: b) simp_all

lemma joinBroker_joinSpec:
  "joinBroker Join b urls
     = joinSpec Join b urls ''join: failed to connect broker to any specified server''"
proof (induction urls arbitrary: b)
  case Nil
  show ?case by (simp add: joinSpec_def)
next
  case (Cons u us)
  obtain e b1 where j: "Join b u = (e, b1)" by (cases "Join b u")
  show ?case
  proof (cases e)
    case None
    with j show ?thesis by (simp add: joinSpec_def)
  next
    case (Some err)
    with j Cons.IH[of b1] show ?thesis by (simp add: joinSpec_def Let_def)
  qed
qed

lemma joinServer_joinSpec:
  "joinServer Join s u joinURLs
     = joinSpec (\<lambda>s joinURL. Join s u joinURL) s joinURLs
         ''join: failed to connect data node to any specified server''"
proof (induction joinURLs arbitrary: s)
  case Nil
  show ?case by (simp add: joinSpec_def)
next
  case (Cons j js)
  obtain e s1 where jn: "Join s u j = (e, s1)" by (cases "Join s u j")
  show ?case
  proof (cases e)
    case None
    with jn show ?thesis by (simp add: joinSpec_def)
  next
    case (Some err)
    with jn Cons.IH[of s1] show ?thesis by (simp add: joinSpec_def Let_def)
  qed
qed

text \<open>
  C8. Both join loops do what the specification says, for every list of candidates and
  every behaviour of \<open>Join\<close>: the calls of \<open>Join\<close> are made on the candidates in
  the listed order, each on the state the call before left; the loop returns to its
  caller at the first candidate that \<open>Join\<close> accepts and calls \<open>Join\<close> on no
  later one; and it ends the process through \<open>log.Fatalf\<close> exactly when \<open>Join\<close>
  refused every candidate. The same holds for the broker (\<open>joinBroker\<close>) and for
  the data node (\<open>joinServer\<close>).
\<close>

theorem join_in_order_until_first_success:
  "joinBroker JoinB b urls
     = joinSpec JoinB b urls ''join: failed to connect broker to any specified server''
   \<and> joinServer JoinS s u joinURLs
     = joinSpec (\<lambda>s joinURL. JoinS s u joinURL) s joinURLs
         ''join: failed to connect data node to any specified server''"
proof (rule conjI)
  show "joinBroker JoinB b urls
     = joinSpec JoinB b urls ''join: failed to connect broker to any specified server''"
    by (rule joinBroker_joinSpec)
  show "joinServer JoinS s u joinURLs
     = joinSpec (\<lambda>s joinURL. JoinS s u joinURL) s joinURLs
         ''join: failed to connect data node to any specified server''"
    by (rule joinServer_joinSpec)
qed

text \<open>
  The example of the specification: of three candidates the first two refuse and the
  third accepts (three calls, in order, the caller goes on), or all three refuse (three
  calls, the process ends). The state counts the calls.
\<close>

theorem join_in_order_until_first_success_witness:
  "joinBroker (\<lambda>b u. (if u = ''u3'' then None else Some (ErrorString ''refused''), Suc b))
      (0::nat) [''u1'', ''u2'', ''u3'', ''u4'']
     = (3, [(''u1'', Some (ErrorString ''refused'')), (''u2'', Some (ErrorString ''refused'')),
            (''u3'', None)], Returned)
   \<and> joinServer (\<lambda>s u j. (Some (ErrorString ''refused''), Suc s)) (0::nat) ''self''
      [''u1'', ''u2'', ''u3'']
     = (3, [(''u1'', Some (ErrorString ''refused'')), (''u2'', Some (ErrorString ''refused'')),
            (''u3'', Some (ErrorString ''refused''))],
        Fatal ''join: failed to connect data node to any specified server'')"
proof -
  let ?JB = "\<lambda>(b::nat) (u::string). (if u = ''u3'' then None else Some (ErrorString ''refused''), Suc b)"
  let ?JS = "\<lambda>(s::nat) (u::string) (j::string). (Some (ErrorString ''refused''), Suc s)"
  have a: "joinSpec ?JB 0 [''u1'', ''u2'', ''u3'', ''u4'']
             ''join: failed to connect broker to any specified server''
           = (3, [(''u1'', Some (ErrorString ''refused'')), (''u2'', Some (ErrorString ''refused'')),
                  (''u3'', None)], Returned)"
    by (simp add: joinSpec_def)
  have b: "joinSpec (\<lambda>s j. ?JS s ''self'' j) 0 [''u1'', ''u2'', ''u3'']
             ''join: failed to connect data node to any specified server''
           = (3, [(''u1'', Some (ErrorString ''refused'')), (''u2'', Some (ErrorString ''refused'')),
                  (''u3'', Some (ErrorString ''refused''))],
              Fatal ''join: failed to connect data node to any specified server'')"
    by (simp add: joinSpec_def)
  show ?thesis
    using join_in_order_until_first_success
            [of ?JB 0 "[''u1'', ''u2'', ''u3'', ''u4'']" ?JS 0 "''self''" "[''u1'', ''u2'', ''u3'']"]
    unfolding a b by simp
qed

subsection \<open>serveWrite\<close>

lemma writeError_status: "status w = None \<Longrightarrow> status (writeError w result c) = Some c"
  by (simp add: writeError_def Write_def WriteHeader_def HeaderAdd_def Let_def)

text \<open>
  C6, as the claim states it, fails: it speaks of every write request, but a request that
  announces \<open>Content-Encoding: gzip\<close> and whose body \<open>gzip.NewReader\<close> refuses is
  answered with status 400 before the decoder runs. A gzip request with a body of zero
  bytes is such a request (\<open>gzip.NewReader\<close> returns \<open>EOF\<close>): its decode would
  end with \<open>EOF\<close> after zero bytes, and it gets 400, not the success status.
\<close>

theorem serveWrite_gzip_refused_counterexample:
  "serveWrite False
      \<lparr>DatabaseExists = (\<lambda>d. d = ''db''), Authorize = (\<lambda>u d. u = ''root''), UserName = (\<lambda>u. u),
       NormalizeBatchPoints = (\<lambda>bp. Inr (BP_Points bp)), WriteSeries = (\<lambda>d rp ps. Inr 7)\<rparr>
      \<lparr>ContentEncoding = ''gzip'', gzipNewReader = Some (ErrorString ''EOF''),
       Decode = (Inl (ErrorString ''EOF'') :: error + nat list BatchPoints)\<rparr>
      (None :: string option) freshResponse
     = (\<lparr>header = [(''content-type'', ''application/json'')], status = Some 400,
         sent_header = [(''content-type'', ''application/json'')],
         body = [EncodeResult \<lparr>StatementID = 0, Series = [],
                               Err = Some (ErrorString ''EOF'')\<rparr>]\<rparr>,
        [])"
  by (simp add: serveWrite_def writeError_def freshResponse_def WriteHeader_def HeaderAdd_def
        Write_def StatusBadRequest_def Let_def)

text \<open>
  C6, amended. For every write request whose body reaches the decoder (the request does
  not announce gzip, or \<open>gzip.NewReader\<close> accepts the body), the checks run in the
  order decode, database name present, database exists, user present, user authorized,
  and the first one that fails decides the status, whatever the later ones would say: a
  decode that ends with \<open>EOF\<close> gives 200 with nothing written and no call of
  \<open>WriteSeries\<close>; any other decode error gives 500; a decoded batch with an empty
  database name gives 500; a database name that does not exist gives 404; with
  authentication required, a missing user or a user without the write privilege gives
  401. No failing request reaches \<open>WriteSeries\<close>.
\<close>

theorem serveWrite_first_failing_step:
  assumes "status w = None" and "reachesDecoder r"
  shows "(\<forall>err. Decode r = Inl err \<and> Error err = ''EOF'' \<longrightarrow>
            serveWrite ra server r user w = (WriteHeader StatusOK w, [])
            \<and> status (WriteHeader StatusOK w) = Some 200 \<and> body (WriteHeader StatusOK w) = body w)
       \<and> (\<forall>err. Decode r = Inl err \<and> Error err \<noteq> ''EOF'' \<longrightarrow>
            status (fst (serveWrite ra server r user w)) = Some 500
            \<and> snd (serveWrite ra server r user w) = [])
       \<and> (\<forall>bp. Decode r = Inr bp \<and> BP_Database bp = [] \<longrightarrow>
            status (fst (serveWrite ra server r user w)) = Some 500
            \<and> snd (serveWrite ra server r user w) = [])
       \<and> (\<forall>bp. Decode r = Inr bp \<and> BP_Database bp \<noteq> [] \<and> \<not> DatabaseExists server (BP_Database bp) \<longrightarrow>
            status (fst (serveWrite ra server r user w)) = Some 404
            \<and> snd (serveWrite ra server r user w) = [])
       \<and> (\<forall>bp. Decode r = Inr bp \<and> BP_Database bp \<noteq> [] \<and> DatabaseExists server (BP_Database bp)
              \<and> ra \<and> (user = None \<or> (\<exists>u. user = Some u \<and> \<not> Authorize server u (BP_Database bp))) \<longrightarrow>
            status (fst (serveWrite ra server r user w)) = Some 401
            \<and> snd (serveWrite ra server r user w) = [])"
  using assms
  by (auto simp: serveWrite_def reachesDecoder_def writeError_status WriteHeader_fresh
        StatusOK_def StatusInternalServerError_def StatusNotFound_def StatusUnauthorized_def)


theorem serveWrite_first_failing_step_witness:
  "serveWrite True
      \<lparr>DatabaseExists = (\<lambda>d. d = ''db''), Authorize = (\<lambda>u d. u = ''root''), UserName = (\<lambda>u. u),
       NormalizeBatchPoints = (\<lambda>bp. Inr (BP_Points bp)), WriteSeries = (\<lambda>d rp ps. Inr 7)\<rparr>
      \<lparr>ContentEncoding = [], gzipNewReader = None, Decode = Inl (ErrorString ''EOF'')\<rparr>
      (Some ''root'') freshResponse
     = (WriteHeader StatusOK freshResponse, ([] :: (string \<times> string \<times> nat list) list))
   \<and> status (fst (serveWrite True
      \<lparr>DatabaseExists = (\<lambda>d. d = ''db''), Authorize = (\<lambda>u d. u = ''root''), UserName = (\<lambda>u. u),
       NormalizeBatchPoints = (\<lambda>bp. Inr (BP_Points bp)), WriteSeries = (\<lambda>d rp ps. Inr 7)\<rparr>
      \<lparr>ContentEncoding = [], gzipNewReader = None,
       Decode = Inr \<lparr>BP_Database = ''nodb'', BP_RetentionPolicy = [], BP_Points = [1::nat]\<rparr>\<rparr>
      (None :: string option) freshResponse)) = Some 404"
proof -
  let ?srv = "\<lparr>DatabaseExists = (\<lambda>d. d = ''db''), Authorize = (\<lambda>u d. u = ''root''),
       UserName = (\<lambda>u. u), NormalizeBatchPoints = (\<lambda>bp. Inr (BP_Points bp)),
       WriteSeries = (\<lambda>d rp ps. Inr 7)\<rparr>
       :: (string, nat list, nat list) WriteServer"
  let ?r1 = "\<lparr>ContentEncoding = [], gzipNewReader = None, Decode = Inl (ErrorString ''EOF'')\<rparr>
       :: nat list WriteRequest"
  let ?r2 = "\<lparr>ContentEncoding = [], gzipNewReader = None,
       Decode = Inr \<lparr>BP_Database = ''nodb'', BP_RetentionPolicy = [], BP_Points = [1::nat]\<rparr>\<rparr>"
  have f: "status freshResponse = None" by (simp add: freshResponse_def)
  have d1: "reachesDecoder ?r1" by (simp add: reachesDecoder_def)
  have d2: "reachesDecoder ?r2" by (simp add: reachesDecoder_def)
  have a: "serveWrite True ?srv ?r1 (Some ''root'') freshResponse
             = (WriteHeader StatusOK freshResponse, [])"
    using serveWrite_first_failing_step [OF f d1, of True ?srv "Some ''root''"] by simp
  have b: "status (fst (serveWrite True ?srv ?r2 None freshResponse)) = Some 404"
    using serveWrite_first_failing_step [OF f d2, of True ?srv None] by simp
  from a b show ?thesis by blast
qed

text \<open>
  C4 does not hold of the source. On the successful path \<open>serveWrite\<close> calls
  \<open>w.WriteHeader(http.StatusOK)\<close> first and adds \<open>X-InfluxDB-Index\<close> to the
  header map afterwards, so the header block that goes out with status 200 does not hold
  the index: the entry is in the map of the handler only. (\<open>writeError\<close> and
  \<open>serveQuery\<close> add their headers before \<open>WriteHeader\<close>.) The request below is
  a write of one point to the existing database \<open>db\<close> with authentication off, which
  \<open>WriteSeries\<close> applies at index 7.
\<close>

theorem serveWrite_index_header_not_sent:
  "serveWrite False
      \<lparr>DatabaseExists = (\<lambda>d. d = ''db''), Authorize = (\<lambda>u d. u = ''root''), UserName = (\<lambda>u. u),
       NormalizeBatchPoints = (\<lambda>bp. Inr (BP_Points bp)), WriteSeries = (\<lambda>d rp ps. Inr 7)\<rparr>
      \<lparr>ContentEncoding = [], gzipNewReader = None,
       Decode = Inr \<lparr>BP_Database = ''db'', BP_RetentionPolicy = ''default'', BP_Points = [1::nat]\<rparr>\<rparr>
      (None :: string option) freshResponse
     = (\<lparr>header = [(''X-InfluxDB-Index'', ''7'')], status = Some 200, sent_header = [], body = []\<rparr>,
        [(''db'', ''default'', [1])])"
  by (simp add: serveWrite_def freshResponse_def WriteHeader_def HeaderAdd_def StatusOK_def
        showNat.simps digitChar_def)

subsection \<open>serveQuery\<close>

lemma stepV_prefix: "stepV (acc @ [c]) r = acc @ stepV [c] r"
  by (simp add: stepV_def)

lemma stepV_single_nonempty: "\<exists>c'. stepV [c] r = [c'] \<or> (\<exists>c' d. stepV [c] r = [c', d])"
  by (simp add: stepV_def)










text \<open>The builtin \<open>append\<close> on a slice that is separate from another.\<close>

lemma writeCells_Nil [simp]: "writeCells cs i [] = cs"
  by (simp add: writeCells_def)









lemma appendSlice_nextFree:
  "appendSlice g a s xs = (s', a') \<Longrightarrow> nextFree a \<le> nextFree a'"
  by (auto simp: appendSlice_def Let_def split: if_splits)




lemma queryStep_statusWritten [simp]: "statusWritten (queryStep g c pr r st) = True"
  by (auto simp: queryStep_def Let_def split: option.splits prod.splits)



lemma queryStep_None_heap [simp]: "heap (queryStep g c pr None st) = heap st"
  by (simp add: queryStep_def Let_def)

lemma queryStep_None_arrs [simp]: "arrs (queryStep g c pr None st) = arrs st"
  by (simp add: queryStep_def Let_def)

lemma queryStep_None_res [simp]: "res (queryStep g c pr None st) = res st"
  by (simp add: queryStep_def Let_def)

lemma queryStep_body_buffered [simp]: "body (qw (queryStep g False pr r st)) = body (qw st)"
  by (auto simp: queryStep_def Let_def WriteHeader_def split: option.splits prod.splits)













lemma queryStep_Err [simp]: "Err (heap (queryStep g c pr r st) a) = Err (heap st a)"
  by (auto simp: queryStep_def Let_def split: option.splits prod.splits)

lemma queryStep_StatementID [simp]:
  "StatementID (heap (queryStep g c pr r st) a) = StatementID (heap st a)"
  by (auto simp: queryStep_def Let_def split: option.splits prod.splits)

lemma queryLoop_Err [simp]: "Err (heap (queryLoop g c pr rs st) a) = Err (heap st a)"
  by (induction rs arbitrary: st) simp_all

lemma queryLoop_StatementID [simp]:
  "StatementID (heap (queryLoop g c pr rs st) a) = StatementID (heap st a)"
  by (induction rs arbitrary: st) simp_all









subsection \<open>serveRunMapper\<close>

lemma writeFrames_append: "writeFrames (xs @ ys) w = writeFrames ys (writeFrames xs w)"
  by (induction xs arbitrary: w) simp_all

lemma body_writeFrames: "body (writeFrames bs w) = body w @ map Bytes bs"
  by (induction bs arbitrary: w) (simp_all add: Write_def WriteHeader_def Let_def)

lemma length_intervalValues [simp]: "length (intervalValues lm s n) = n"
  by (induction n arbitrary: s) simp_all

lemma firstEmptyAt_1:
  "firstEmptyAt lm tmax s (Suc 0) \<longleftrightarrow> IsEmpty lm (snd (NextInterval lm s)) tmax"
  by (simp add: firstEmptyAt_def)

lemma list_all_upt_Suc:
  "list_all P [1..<Suc (Suc k)] \<longleftrightarrow> P 1 \<and> list_all (\<lambda>j. P (Suc j)) [1..<Suc k]"
proof -
  have "[1..<Suc (Suc k)] = 1 # map Suc [1..<Suc k]"
    by (simp add: upt_conv_Cons map_Suc_upt del: upt_Suc)
  then show ?thesis by (simp only: list.pred_inject list.pred_map comp_def)
qed

lemma firstEmptyAt_Suc:
  "firstEmptyAt lm tmax s (Suc (Suc k)) \<longleftrightarrow>
     \<not> IsEmpty lm (snd (NextInterval lm s)) tmax
     \<and> firstEmptyAt lm tmax (snd (NextInterval lm s)) (Suc k)"
  unfolding firstEmptyAt_def list_all_upt_Suc by auto

lemma framesUntilExhaustion_Suc:
  "framesUntilExhaustion lm s (Suc (Suc k))
     = Suc (framesUntilExhaustion lm (snd (NextInterval lm s)) (Suc k))"
  by (simp add: framesUntilExhaustion_def)

text \<open>The chunk counter: how many decrements take it to zero.\<close>

lemma counterStop_pos: "1 \<le> counterStop c"
  by (simp add: counterStop_def unat_gt_0 Suc_le_eq)

lemma counter_zero: "c - 1 = 0 \<longleftrightarrow> c = (1 :: 'w::len word)"
  by simp

lemma unat_eq_Suc_0: "unat (c :: 'w::len word) = Suc 0 \<longleftrightarrow> c = 1"
proof
  assume "unat c = Suc 0"
  then have "unat c = unat (1 :: 'w word)" by simp
  then show "c = 1" by (simp only: word_unat_eq_iff)
qed simp

lemma counterStop_one: "counterStop c = Suc 0 \<longleftrightarrow> c = 1"
proof (cases "c = 0")
  case True
  have "(2::nat) ^ LENGTH('a) \<noteq> Suc 0" by simp
  with True show ?thesis by (simp add: counterStop_def)
next
  case False
  then show ?thesis by (simp add: counterStop_def unat_eq_Suc_0)
qed

lemma counterStop_pred:
  assumes "c \<noteq> 1"
  shows "counterStop (c - 1) = counterStop c - 1"
proof (cases "c = 0")
  case True
  have "(- 1 :: 'a word) \<noteq> 0" by simp
  then show ?thesis using True
    by (simp add: counterStop_def unsigned_minus_1_eq_mask mask_eq_exp_minus_1)
next
  case False
  with assms have "c - 1 \<noteq> 0" by simp
  then show ?thesis using False by (simp add: counterStop_def unat_minus_one)
qed

lemma counterStop_positive: "0 <s c \<Longrightarrow> counterStop c = unat c"
  by (auto simp: counterStop_def)

lemma counterStop_nonpositive:
  fixes c :: "'w::len word"
  assumes "c \<le>s 0"
  shows "int (counterStop c) = 2 ^ LENGTH('w) + sint c"
    and "2 ^ (LENGTH('w) - 1) \<le> counterStop c"
proof -
  have s: "sint c \<le> 0" using assms by (simp add: word_sle_eq)
  show a: "int (counterStop c) = 2 ^ LENGTH('w) + sint c"
  proof (cases "c = 0")
    case True
    then show ?thesis by (simp add: counterStop_def)
  next
    case False
    then have "sint c \<noteq> 0" by (simp add: signed_eq_0_iff)
    with s have "sint c < 0" by simp
    have lo: "- (2 ^ LENGTH('w)) \<le> sint c"
    proof -
      have "- (2 ^ (LENGTH('w) - 1)) \<le> sint c" by (rule sint_ge)
      moreover have "(2::int) ^ (LENGTH('w) - 1) \<le> 2 ^ LENGTH('w)"
        by (rule power_increasing) simp_all
      ultimately show ?thesis by linarith
    qed
    have "uint c = sint c mod 2 ^ LENGTH('w)" by (simp add: uint_sint take_bit_eq_mod)
    also have "\<dots> = (sint c + 2 ^ LENGTH('w)) mod 2 ^ LENGTH('w)" by simp
    also have "\<dots> = sint c + 2 ^ LENGTH('w)"
      using lo \<open>sint c < 0\<close> by (intro mod_pos_pos_trivial) simp_all
    finally have "uint c = sint c + 2 ^ LENGTH('w)" .
    with False show ?thesis by (simp add: counterStop_def)
  qed
  have "- (2 ^ (LENGTH('w) - 1)) \<le> sint c" by (rule sint_ge)
  moreover have "(2::int) ^ LENGTH('w) = 2 * 2 ^ (LENGTH('w) - 1)"
    by (cases "LENGTH('w)") simp_all
  ultimately have "(2::int) ^ (LENGTH('w) - 1) \<le> int (counterStop c)" using a by simp
  then have "int (2 ^ (LENGTH('w) - 1)) \<le> int (counterStop c)" by simp
  then show "2 ^ (LENGTH('w) - 1) \<le> counterStop c" by (simp only: of_nat_le_iff)
qed

text \<open>One round of the loop when nothing fails in it.\<close>

lemma mapperLoop_step:
  assumes "noErrorWithin lm enc tmax s (Suc k)"
  shows "mapperLoop lm enc isRaw tmax c s w =
    (if intervalValue lm s = None \<and> IsEmpty lm (snd (NextInterval lm s)) tmax
     then Some (Break, snd (NextInterval lm s), w)
     else if \<not> isRaw \<and> c - 1 = 0
     then Some (Break, snd (NextInterval lm s),
                Flush (Write (Bytes (frameBytes enc (intervalValue lm s))) w))
     else if IsEmpty lm (snd (NextInterval lm s)) tmax
     then Some (Break, snd (NextInterval lm s),
                Flush (Write (Bytes (frameBytes enc (intervalValue lm s))) w))
     else mapperLoop lm enc isRaw tmax (if isRaw then c else c - 1) (snd (NextInterval lm s))
            (Flush (Write (Bytes (frameBytes enc (intervalValue lm s))) w)))"
proof -
  obtain r s' where n: "NextInterval lm s = (r, s')" by (cases "NextInterval lm s")
  obtain v where r: "r = Inr v" using assms n by (cases r) simp_all
  have iv: "intervalValue lm s = v" using n r by (simp add: intervalValue_def)
  show ?thesis
  proof (cases "v = None \<and> IsEmpty lm s' tmax")
    case True
    then show ?thesis
      by (subst mapperLoop.simps) (simp add: n r iv)
  next
    case False
    obtain d where d: "marshalValue enc v = Inr d"
      using assms n r False by (cases "marshalValue enc v") auto
    obtain b where b: "marshalResponse enc \<lparr>Data = d, Completed = False, MapErr = []\<rparr> = Inr b"
      using assms n r False d
      by (cases "marshalResponse enc \<lparr>Data = d, Completed = False, MapErr = []\<rparr>") auto
    have fb: "frameBytes enc v = b" using d b by (simp add: frameBytes_def)
    have nn: "\<not> (v = None \<and> IsEmpty lm s' tmax)" using False .
    show ?thesis
      apply (subst mapperLoop.simps)
      apply (subst n)
      apply (simp only: iv fb prod.case sum.case d b r n snd_conv nn if_False)
      done
  qed
qed

lemma noErrorWithin_next:
  assumes "noErrorWithin lm enc tmax s (Suc k)"
    and "\<not> IsEmpty lm (snd (NextInterval lm s)) tmax"
  shows "noErrorWithin lm enc tmax (snd (NextInterval lm s)) k"
  using assms by (auto split: prod.splits sum.splits if_splits)

lemma stillRunning_SucD:
  assumes "stillRunning lm enc tmax s (Suc k)"
  obtains v d b where "NextInterval lm s = (Inr v, snd (NextInterval lm s))"
    and "marshalValue enc v = Inr d"
    and "marshalResponse enc \<lparr>Data = d, Completed = False, MapErr = []\<rparr> = Inr b"
    and "\<not> IsEmpty lm (snd (NextInterval lm s)) tmax"
    and "stillRunning lm enc tmax (snd (NextInterval lm s)) k"
  using assms by (auto split: prod.splits sum.splits)

lemma stillRunning_Suc_iff:
  assumes "NextInterval lm s = (Inr v, s')" and "marshalValue enc v = Inr d"
    and "marshalResponse enc \<lparr>Data = d, Completed = False, MapErr = []\<rparr> = Inr b"
  shows "stillRunning lm enc tmax s (Suc k)
           \<longleftrightarrow> \<not> IsEmpty lm s' tmax \<and> stillRunning lm enc tmax s' k"
  using assms by simp

lemma stillRunning_not_empty:
  "stillRunning lm enc tmax s k \<Longrightarrow> 1 \<le> j \<Longrightarrow> j \<le> k \<Longrightarrow> \<not> IsEmpty lm (mstate lm s j) tmax"
proof (induction k arbitrary: s j)
  case 0
  then show ?case by simp
next
  case (Suc k)
  from Suc.prems(1) obtain v d b where ne: "\<not> IsEmpty lm (snd (NextInterval lm s)) tmax"
    and sr: "stillRunning lm enc tmax (snd (NextInterval lm s)) k"
    by (rule stillRunning_SucD)
  obtain j' where j: "j = Suc j'" using Suc.prems(2) by (cases j) simp_all
  show ?case
  proof (cases j')
    case 0
    with j ne show ?thesis by simp
  next
    case (Suc i)
    with j Suc.prems(3) have "1 \<le> j'" "j' \<le> k" by simp_all
    from Suc.IH[OF sr this] j show ?thesis by simp
  qed
qed

text \<open>Raw mode: the loop ends at the first exhaustion, whatever the chunk size.\<close>

lemma mapperLoop_raw:
  "firstEmptyAt lm tmax s n \<Longrightarrow> noErrorWithin lm enc tmax s n \<Longrightarrow>
     mapperLoop lm enc True tmax c s w =
       Some (Break, mstate lm s n,
             writeFrames (map (frameBytes enc)
                            (take (framesUntilExhaustion lm s n) (intervalValues lm s n))) w)"
proof (induction n arbitrary: s w)
  case 0
  then show ?case by (simp add: firstEmptyAt_def)
next
  case (Suc n)
  show ?case
  proof (cases n)
    case 0
    with Suc.prems have e: "IsEmpty lm (snd (NextInterval lm s)) tmax"
      by (simp add: firstEmptyAt_1)
    show ?thesis
      using e 0 by (subst mapperLoop_step[OF Suc.prems(2)]) (simp add: framesUntilExhaustion_def)
  next
    case (Suc k)
    with Suc.prems have ne: "\<not> IsEmpty lm (snd (NextInterval lm s)) tmax"
      and f: "firstEmptyAt lm tmax (snd (NextInterval lm s)) n"
      by (simp_all add: firstEmptyAt_Suc)
    have ok: "noErrorWithin lm enc tmax (snd (NextInterval lm s)) n"
      using Suc.prems(2) ne by (rule noErrorWithin_next)
    have IH: "mapperLoop lm enc True tmax c (snd (NextInterval lm s))
                (Flush (Write (Bytes (frameBytes enc (intervalValue lm s))) w)) =
       Some (Break, mstate lm (snd (NextInterval lm s)) n,
             writeFrames (map (frameBytes enc)
                            (take (framesUntilExhaustion lm (snd (NextInterval lm s)) n)
                               (intervalValues lm (snd (NextInterval lm s)) n)))
               (Flush (Write (Bytes (frameBytes enc (intervalValue lm s))) w)))"
      using f ok by (rule Suc.IH)
    show ?thesis
      using ne IH Suc
      by (subst mapperLoop_step[OF Suc.prems(2)]) (simp add: framesUntilExhaustion_Suc)
  qed
qed

text \<open>Aggregate mode: the loop ends at the first exhaustion or when the counter is zero.\<close>

lemma mapperLoop_aggregate:
  "firstEmptyAt lm tmax s n \<Longrightarrow> noErrorWithin lm enc tmax s (min n (counterStop c)) \<Longrightarrow>
     mapperLoop lm enc False tmax c s w =
       Some (Break, mstate lm s (min n (counterStop c)),
             writeFrames (map (frameBytes enc)
                            (take (min (framesUntilExhaustion lm s n) (counterStop c))
                               (intervalValues lm s n))) w)"
proof (induction n arbitrary: s w c)
  case 0
  then show ?case by (simp add: firstEmptyAt_def)
next
  case (Suc n)
  obtain K where K: "counterStop c = Suc K"
    using counterStop_pos[of c] by (cases "counterStop c") simp_all
  have ok1: "noErrorWithin lm enc tmax s (Suc (min n K))"
    using Suc.prems(2) K by simp
  show ?case
  proof (cases n)
    case 0
    with Suc.prems have e: "IsEmpty lm (snd (NextInterval lm s)) tmax"
      by (simp add: firstEmptyAt_1)
    show ?thesis
      using e 0 K
      by (subst mapperLoop_step[OF ok1]) (auto simp: framesUntilExhaustion_def)
  next
    case (Suc k)
    with Suc.prems have ne: "\<not> IsEmpty lm (snd (NextInterval lm s)) tmax"
      and f: "firstEmptyAt lm tmax (snd (NextInterval lm s)) n"
      by (simp_all add: firstEmptyAt_Suc)
    show ?thesis
    proof (cases "c = 1")
      case True
      then have K0: "K = 0" using K counterStop_one[of c] by simp
      show ?thesis
        using ne True Suc K K0
        by (subst mapperLoop_step[OF ok1]) (simp add: framesUntilExhaustion_Suc)
    next
      case False
      then have c1: "c - 1 \<noteq> 0" by simp
      have K1: "counterStop (c - 1) = K" using counterStop_pred[OF False] K by simp
      have ok: "noErrorWithin lm enc tmax (snd (NextInterval lm s)) (min n (counterStop (c - 1)))"
        unfolding K1 using ok1 ne by (rule noErrorWithin_next)
      have IH: "mapperLoop lm enc False tmax (c - 1) (snd (NextInterval lm s))
                (Flush (Write (Bytes (frameBytes enc (intervalValue lm s))) w)) =
         Some (Break, mstate lm (snd (NextInterval lm s)) (min n (counterStop (c - 1))),
             writeFrames (map (frameBytes enc)
                            (take (min (framesUntilExhaustion lm (snd (NextInterval lm s)) n)
                                       (counterStop (c - 1)))
                               (intervalValues lm (snd (NextInterval lm s)) n)))
               (Flush (Write (Bytes (frameBytes enc (intervalValue lm s))) w)))"
        using f ok by (rule Suc.IH)
      show ?thesis
        using ne IH Suc c1 K K1
        by (subst mapperLoop_step[OF ok1]) (simp add: framesUntilExhaustion_Suc)
    qed
  qed
qed

text \<open>A raw session that never fails and never meets an exhausted mapper never ends.\<close>

lemma mapperLoop_raw_Some_stops:
  assumes "mapperLoop lm enc True tmax c s w = Some r"
  shows "\<exists>k. \<not> stillRunning lm enc tmax s k"
proof -
  have "True \<longrightarrow> (\<exists>k. \<not> stillRunning lm enc tmax s k)"
  proof (rule mapperLoop.raw_induct
      [where P = "\<lambda>lm enc isRaw tmax c s w r.
                    isRaw \<longrightarrow> (\<exists>k. \<not> stillRunning lm enc tmax s k)",
       OF _ assms], goal_cases)
    case (1 f lm enc isRaw tmax c s w r)
    show ?case
    proof (intro impI)
      assume raw: isRaw
      show "\<exists>k. \<not> stillRunning lm enc tmax s k"
      proof (cases "stillRunning lm enc tmax s (Suc 0)")
        case False
        then show ?thesis by blast
      next
        case True
        then obtain v d b where n: "NextInterval lm s = (Inr v, snd (NextInterval lm s))"
          and d: "marshalValue enc v = Inr d"
          and b: "marshalResponse enc \<lparr>Data = d, Completed = False, MapErr = []\<rparr> = Inr b"
          and ne: "\<not> IsEmpty lm (snd (NextInterval lm s)) tmax"
          by (rule stillRunning_SucD)
        have "f lm enc isRaw tmax c (snd (NextInterval lm s)) (Flush (Write (Bytes b) w)) = Some r"
          using 1(2) raw ne by (subst (asm) n) (simp add: d b)
        from 1(1)[OF this] raw obtain k where
          k: "\<not> stillRunning lm enc tmax (snd (NextInterval lm s)) k" by blast
        have "\<not> stillRunning lm enc tmax s (Suc k)"
          using k unfolding stillRunning_Suc_iff[OF n d b] by simp
        then show ?thesis by blast
      qed
    qed
  qed
  then show ?thesis by simp
qed

lemma mapperLoop_raw_never:
  assumes "\<forall>k. stillRunning lm enc tmax s k"
  shows "mapperLoop lm enc True tmax c s w = None"
proof (cases "mapperLoop lm enc True tmax c s w")
  case None
  then show ?thesis .
next
  case (Some r)
  from mapperLoop_raw_Some_stops[OF Some] assms show ?thesis by blast
qed

text \<open>
  The chunk counter against the raw loop. A session that is no longer running after as
  many intervals as take the counter to zero goes the way of the raw session; one that is
  still running then is stopped by the counter.
\<close>

lemma mapperLoop_counter_not_reached:
  "counterStop c = n \<Longrightarrow> \<not> stillRunning lm enc tmax s n \<Longrightarrow>
     mapperLoop lm enc False tmax c s w = mapperLoop lm enc True tmax c' s w"
proof (induction n arbitrary: c s w)
  case 0
  then show ?case using counterStop_pos[of c] by simp
next
  case (Suc j)
  note L = mapperLoop.simps[of lm enc False tmax c s w]
  note R = mapperLoop.simps[of lm enc True tmax c' s w]
  show ?case
  proof (cases "stillRunning lm enc tmax s (Suc 0)")
    case False
    show ?thesis
      unfolding L R using False
      by (auto split: prod.splits sum.splits)
  next
    case True
    define s' where "s' = snd (NextInterval lm s)"
    from True obtain v d b where n: "NextInterval lm s = (Inr v, s')"
      and d: "marshalValue enc v = Inr d"
      and b: "marshalResponse enc \<lparr>Data = d, Completed = False, MapErr = []\<rparr> = Inr b"
      and ne: "\<not> IsEmpty lm s' tmax"
      unfolding s'_def by (rule stillRunning_SucD)
    have nsr: "\<not> stillRunning lm enc tmax s' j"
      using Suc.prems(2) ne unfolding stillRunning_Suc_iff[OF n d b] by simp
    then have j0: "j \<noteq> 0" by (cases j) simp_all
    then have c1: "c \<noteq> 1" using Suc.prems(1) counterStop_one[of c] by auto
    then have c0: "c - 1 \<noteq> 0" by simp
    have K1: "counterStop (c - 1) = j" using counterStop_pred[OF c1] Suc.prems(1) by simp
    have IH: "mapperLoop lm enc False tmax (c - 1) s' (Flush (Write (Bytes b) w))
              = mapperLoop lm enc True tmax c' s' (Flush (Write (Bytes b) w))"
      using K1 nsr by (rule Suc.IH)
    show ?thesis
      unfolding L R using IH c1 by (simp add: n d b ne)
  qed
qed

lemma mapperLoop_counter_reached:
  "counterStop c = n \<Longrightarrow> stillRunning lm enc tmax s n \<Longrightarrow>
     mapperLoop lm enc False tmax c s w =
       Some (Break, mstate lm s n,
             writeFrames (map (frameBytes enc) (intervalValues lm s n)) w)"
proof (induction n arbitrary: c s w)
  case 0
  then show ?case using counterStop_pos[of c] by simp
next
  case (Suc j)
  from Suc.prems(2) obtain v d b where n: "NextInterval lm s = (Inr v, snd (NextInterval lm s))"
    and d: "marshalValue enc v = Inr d"
    and b: "marshalResponse enc \<lparr>Data = d, Completed = False, MapErr = []\<rparr> = Inr b"
    and ne: "\<not> IsEmpty lm (snd (NextInterval lm s)) tmax"
    and sr: "stillRunning lm enc tmax (snd (NextInterval lm s)) j"
    by (rule stillRunning_SucD)
  have iv: "intervalValue lm s = v" by (subst intervalValue_def, subst n) simp
  have fb: "frameBytes enc v = b" using d b by (simp add: frameBytes_def)
  have L: "mapperLoop lm enc False tmax c s w =
             (if c - 1 = 0 then Some (Break, snd (NextInterval lm s), Flush (Write (Bytes b) w))
              else mapperLoop lm enc False tmax (c - 1) (snd (NextInterval lm s))
                     (Flush (Write (Bytes b) w)))"
    by (subst mapperLoop.simps, subst n) (simp add: d b ne)
  show ?case
  proof (cases "c = 1")
    case True
    then have "j = 0" using Suc.prems(1) counterStop_one[of c] by simp
    then show ?thesis unfolding L using True by (simp add: iv fb)
  next
    case False
    then have c0: "c - 1 \<noteq> 0" by simp
    have K1: "counterStop (c - 1) = j" using counterStop_pred[OF False] Suc.prems(1) by simp
    have "mapperLoop lm enc False tmax (c - 1) (snd (NextInterval lm s))
            (Flush (Write (Bytes b) w))
          = Some (Break, mstate lm (snd (NextInterval lm s)) j,
                  writeFrames (map (frameBytes enc)
                     (intervalValues lm (snd (NextInterval lm s)) j))
                    (Flush (Write (Bytes b) w)))"
      using K1 sr by (rule Suc.IH)
    then show ?thesis unfolding L using c0 by (simp add: iv fb)
  qed
qed

lemma serveRunMapper_started:
  assumes "decoded = Inr m" and "StartLocalMapper m = Inr s0" and "Open lm s0 = (None, s1)"
    and "CallExpr m = Inr call" and "Begin lm s1 call (TMin m) (ChunkSize m) = (None, s2)"
    and "marshalResponse enc \<lparr>Data = [], Completed = True, MapErr = []\<rparr> = Inr done"
  shows "serveRunMapper lm enc StartLocalMapper CallExpr decoded w =
           (case mapperLoop lm enc (call = None) (TMax m) (ChunkSize m) s2
                   (WriteHeader 200 (HeaderAdd ''content-type'' ''application/json'' w)) of
              None \<Rightarrow> None
            | Some (Return, s3, w2) \<Rightarrow> Some (w2, Some (Close lm s3))
            | Some (Break, s3, w2) \<Rightarrow> Some (Flush (Write (Bytes done) w2), Some (Close lm s3)))"
  using assms
  by (simp add: serveRunMapper_def Let_def
        split: option.splits prod.splits loop_exit.splits)

lemma exampleMapper_firstEmptyAt: "firstEmptyAt exampleMapper 10 0 3"
  by (simp add: firstEmptyAt_def exampleMapper_def eval_nat_numeral)

lemma exampleMapper_noError: "noErrorWithin exampleMapper exampleEncoders 10 s k"
  by (induction k arbitrary: s) (simp_all add: exampleMapper_def exampleEncoders_def)

lemma exampleMapper_values: "intervalValues exampleMapper 0 3 = [Some 0, None, Some 2]"
  by (simp add: exampleMapper_def intervalValue_def eval_nat_numeral)

lemma exampleMapper_frames: "framesUntilExhaustion exampleMapper 0 3 = 3"
  by (simp add: framesUntilExhaustion_def exampleMapper_def intervalValue_def eval_nat_numeral)

lemma exampleMapper_mstate:
  "mstate exampleMapper 0 3 = 3" "mstate exampleMapper 0 2 = 2"
  by (simp_all add: exampleMapper_def eval_nat_numeral)

lemma exampleEncoders_frames:
  "frameBytes exampleEncoders (Some 0) = ''data: 0''"
  "frameBytes exampleEncoders None = ''data: null''"
  "frameBytes exampleEncoders (Some 2) = ''data: 2''"
  by (simp_all add: frameBytes_def exampleEncoders_def showNat.simps digitChar_def)

lemma endlessMapper_stillRunning: "stillRunning endlessMapper exampleEncoders tmax s k"
  by (induction k arbitrary: s) (simp_all add: endlessMapper_def exampleEncoders_def)

lemma endlessMapper_mstate: "mstate endlessMapper s k = s + k"
  by (induction k arbitrary: s) (simp_all add: endlessMapper_def)

text \<open>
  C3, as the claim states it, fails: its hypotheses leave out the JSON encoding of the
  interval value. In the raw session below every step the claim lists succeeds, the
  first interval is not nil and the mapper is not exhausted after it, and the session
  stops there, with an error frame and no completed frame, because
  \<open>json.Marshal(&v)\<close> fails.
\<close>

theorem serveRunMapper_encode_failure_counterexample:
  "fst (NextInterval exampleMapper 0) = Inr (Some 0)
   \<and> \<not> IsEmpty exampleMapper (snd (NextInterval exampleMapper 0)) 10
   \<and> serveRunMapper exampleMapper failingEncoders (\<lambda>m. Inr 0) (\<lambda>m. Inr None)
        (Inr \<lparr>Call = [], TMin = 0, TMax = 10, ChunkSize = 5\<rparr>) freshResponse
      = Some (\<lparr>header = [(''content-type'', ''application/json'')], status = Some 200,
               sent_header = [(''content-type'', ''application/json'')],
               body = [Bytes ''error: json: unsupported value'']\<rparr>, Some 1)"
proof -
  have l: "mapperLoop exampleMapper failingEncoders True 10 5 0 w
             = Some (Return, 1, mapError failingEncoders w
                                  (ErrorString ''json: unsupported value''))" for w
    by (subst mapperLoop.simps) (simp add: exampleMapper_def failingEncoders_def)
  let ?m = "\<lparr>Call = [], TMin = 0, TMax = 10, ChunkSize = 5 :: 64 word\<rparr>"
  have o: "Open exampleMapper 0 = (None, 0)" by (simp add: exampleMapper_def)
  have b: "Begin exampleMapper 0 None (TMin ?m) (ChunkSize ?m) = (None, 0)"
    by (simp add: exampleMapper_def)
  have d: "marshalResponse failingEncoders \<lparr>Data = [], Completed = True, MapErr = []\<rparr>
             = Inr ''completed''"
    by (simp add: failingEncoders_def exampleEncoders_def)
  have cl: "Close exampleMapper s = s" for s by (simp add: exampleMapper_def)
  have e: "mapError failingEncoders w (ErrorString ''json: unsupported value'')
             = Write (Bytes ''error: json: unsupported value'') w" for w
    by (simp add: mapError_def failingEncoders_def exampleEncoders_def)
  have n: "fst (NextInterval exampleMapper 0) = Inr (Some 0)
           \<and> \<not> IsEmpty exampleMapper (snd (NextInterval exampleMapper 0)) 10"
    by (simp add: exampleMapper_def)
  have "serveRunMapper exampleMapper failingEncoders (\<lambda>m. Inr 0) (\<lambda>m. Inr None) (Inr ?m)
          freshResponse
        = Some (Write (Bytes ''error: json: unsupported value'')
                  (WriteHeader 200 (HeaderAdd ''content-type'' ''application/json'' freshResponse)),
                Some 1)"
    using serveRunMapper_started
            [of "Inr ?m" ?m "\<lambda>m. Inr 0" 0 exampleMapper 0 "\<lambda>m. Inr None" None 0
                failingEncoders "''completed''" freshResponse, OF refl refl o refl b d]
    by (simp add: l e cl)
  then show ?thesis using n
    by (simp add: HeaderAdd_def WriteHeader_def Write_def freshResponse_def)
qed

text \<open>
  C3, amended. For every mapper session in which decoding, mapper open, call-expression
  parsing and \<open>Begin\<close> succeed, in which no call of \<open>NextInterval\<close> and no JSON
  encoding of an interval value or of its frame fails before the loop stops, and in which
  the completed frame encodes: in raw mode (no call expression) the loop stops exactly
  after the first interval after which \<open>IsEmpty(TMax)\<close> holds, whatever the chunk
  size, a nil interval alone does not stop it (it is sent as a frame, unless it is the
  one on which the mapper is exhausted), and a session whose mapper is never exhausted
  never returns; in aggregate mode with a positive chunk size the session writes exactly
  min(number of intervals until exhaustion, chunk size) interval frames and then the
  completed frame, and exactly chunk size interval frames when the mapper is not
  exhausted within that many intervals. The number of intervals until exhaustion does
  not count a nil interval on which the mapper is exhausted.
\<close>

theorem serveRunMapper_stops_at_exhaustion_or_chunk:
  assumes "decoded = Inr m" and "StartLocalMapper m = Inr s0" and "Open lm s0 = (None, s1)"
    and "CallExpr m = Inr call" and "Begin lm s1 call (TMin m) (ChunkSize m) = (None, s2)"
    and "marshalResponse enc \<lparr>Data = [], Completed = True, MapErr = []\<rparr> = Inr done"
  shows "(call = None \<longrightarrow>
            (\<forall>n. firstEmptyAt lm (TMax m) s2 n \<and> noErrorWithin lm enc (TMax m) s2 n \<longrightarrow>
               (\<exists>w'. serveRunMapper lm enc StartLocalMapper CallExpr decoded w
                        = Some (w', Some (Close lm (mstate lm s2 n)))
                    \<and> body w' = body w
                         @ map Bytes (map (frameBytes enc)
                             (take (framesUntilExhaustion lm s2 n) (intervalValues lm s2 n)))
                         @ [Bytes done]))
            \<and> ((\<forall>k. stillRunning lm enc (TMax m) s2 k) \<longrightarrow>
                 serveRunMapper lm enc StartLocalMapper CallExpr decoded w = None))
       \<and> (call \<noteq> None \<and> 0 <s ChunkSize m \<longrightarrow>
            (\<forall>n. firstEmptyAt lm (TMax m) s2 n
                 \<and> noErrorWithin lm enc (TMax m) s2 (min n (unat (ChunkSize m))) \<longrightarrow>
               (\<exists>w' fs. serveRunMapper lm enc StartLocalMapper CallExpr decoded w
                        = Some (w', Some (Close lm (mstate lm s2 (min n (unat (ChunkSize m))))))
                    \<and> body w' = body w @ map Bytes fs @ [Bytes done]
                    \<and> fs = map (frameBytes enc)
                             (take (min (framesUntilExhaustion lm s2 n) (unat (ChunkSize m)))
                                (intervalValues lm s2 n))
                    \<and> length fs = min (framesUntilExhaustion lm s2 n) (unat (ChunkSize m))))
            \<and> (stillRunning lm enc (TMax m) s2 (unat (ChunkSize m)) \<longrightarrow>
                 (\<exists>w' fs. serveRunMapper lm enc StartLocalMapper CallExpr decoded w
                        = Some (w', Some (Close lm (mstate lm s2 (unat (ChunkSize m)))))
                    \<and> body w' = body w @ map Bytes fs @ [Bytes done]
                    \<and> fs = map (frameBytes enc) (intervalValues lm s2 (unat (ChunkSize m)))
                    \<and> length fs = unat (ChunkSize m))))"
proof -
  define w1 where "w1 = WriteHeader 200 (HeaderAdd ''content-type'' ''application/json'' w)"
  have bw1: "body w1 = body w" by (simp add: w1_def HeaderAdd_def WriteHeader_def)
  have started: "serveRunMapper lm enc StartLocalMapper CallExpr decoded w =
           (case mapperLoop lm enc (call = None) (TMax m) (ChunkSize m) s2 w1 of
              None \<Rightarrow> None
            | Some (Return, s3, w2) \<Rightarrow> Some (w2, Some (Close lm s3))
            | Some (Break, s3, w2) \<Rightarrow> Some (Flush (Write (Bytes done) w2), Some (Close lm s3)))"
    unfolding w1_def using assms by (rule serveRunMapper_started)
  have bw: "body (Write (Bytes done) w2) = body w2 @ [Bytes done]" for w2
    by (simp add: Write_def WriteHeader_def Let_def)
  have raw_stop: "\<exists>w'. serveRunMapper lm enc StartLocalMapper CallExpr decoded w
                        = Some (w', Some (Close lm (mstate lm s2 n)))
                    \<and> body w' = body w
                         @ map Bytes (map (frameBytes enc)
                             (take (framesUntilExhaustion lm s2 n) (intervalValues lm s2 n)))
                         @ [Bytes done]"
    if "call = None" and fe: "firstEmptyAt lm (TMax m) s2 n"
      and ok: "noErrorWithin lm enc (TMax m) s2 n" for n
    using started that(1) mapperLoop_raw[OF fe ok, of "ChunkSize m" w1] bw1
    by (simp add: body_writeFrames bw)
  have raw_never: "serveRunMapper lm enc StartLocalMapper CallExpr decoded w = None"
    if "call = None" and "\<forall>k. stillRunning lm enc (TMax m) s2 k"
    using started that(1) mapperLoop_raw_never[OF that(2), of "ChunkSize m" w1]
    by simp
  have fu: "framesUntilExhaustion lm s2 n \<le> n" for n
    by (simp add: framesUntilExhaustion_def)
  have agg: "\<exists>w' fs. serveRunMapper lm enc StartLocalMapper CallExpr decoded w
                        = Some (w', Some (Close lm (mstate lm s2 (min n (unat (ChunkSize m))))))
                    \<and> body w' = body w @ map Bytes fs @ [Bytes done]
                    \<and> fs = map (frameBytes enc)
                             (take (min (framesUntilExhaustion lm s2 n) (unat (ChunkSize m)))
                                (intervalValues lm s2 n))
                    \<and> length fs = min (framesUntilExhaustion lm s2 n) (unat (ChunkSize m))"
    if "call \<noteq> None \<and> 0 <s ChunkSize m" and fe: "firstEmptyAt lm (TMax m) s2 n"
      and ok: "noErrorWithin lm enc (TMax m) s2 (min n (unat (ChunkSize m)))" for n
  proof -
    have c: "counterStop (ChunkSize m) = unat (ChunkSize m)"
      using that(1) by (simp add: counterStop_positive)
    have nr: "(call = None) = False" using that(1) by simp
    have ok': "noErrorWithin lm enc (TMax m) s2 (min n (counterStop (ChunkSize m)))"
      using ok c by simp
    have len: "length (map (frameBytes enc)
                 (take (min (framesUntilExhaustion lm s2 n) (unat (ChunkSize m)))
                    (intervalValues lm s2 n)))
               = min (framesUntilExhaustion lm s2 n) (unat (ChunkSize m))"
      using fu[of n] by simp
    show ?thesis
      using started mapperLoop_aggregate[OF fe ok', of w1] bw1 len
      unfolding nr c by (simp add: body_writeFrames bw)
  qed
  have agg_full: "\<exists>w' fs. serveRunMapper lm enc StartLocalMapper CallExpr decoded w
                        = Some (w', Some (Close lm (mstate lm s2 (unat (ChunkSize m)))))
                    \<and> body w' = body w @ map Bytes fs @ [Bytes done]
                    \<and> fs = map (frameBytes enc) (intervalValues lm s2 (unat (ChunkSize m)))
                    \<and> length fs = unat (ChunkSize m)"
    if "call \<noteq> None \<and> 0 <s ChunkSize m"
      and sr: "stillRunning lm enc (TMax m) s2 (unat (ChunkSize m))"
  proof -
    have c: "counterStop (ChunkSize m) = unat (ChunkSize m)"
      using that(1) by (simp add: counterStop_positive)
    have nr: "(call = None) = False" using that(1) by simp
    show ?thesis
      using started mapperLoop_counter_reached[OF c sr, of w1] bw1
      unfolding nr by (simp add: body_writeFrames bw)
  qed
  show ?thesis using raw_stop raw_never agg agg_full by blast
qed

theorem serveRunMapper_stops_at_exhaustion_or_chunk_witness:
  "(\<exists>w'. serveRunMapper exampleMapper exampleEncoders (\<lambda>m. Inr 0) (\<lambda>m. Inr None)
            (Inr \<lparr>Call = [], TMin = 0, TMax = 10, ChunkSize = 2\<rparr>) freshResponse
          = Some (w', Some 3)
        \<and> body w' = [Bytes ''data: 0'', Bytes ''data: null'', Bytes ''data: 2'',
                      Bytes ''completed''])
   \<and> (\<exists>w' fs. serveRunMapper exampleMapper exampleEncoders (\<lambda>m. Inr 0) (\<lambda>m. Inr (Some ()))
            (Inr \<lparr>Call = ''count'', TMin = 0, TMax = 10, ChunkSize = 2\<rparr>) freshResponse
          = Some (w', Some 2)
        \<and> body w' = map Bytes fs @ [Bytes ''completed'']
        \<and> fs = [''data: 0'', ''data: null''] \<and> length fs = 2)"
proof -
  let ?m1 = "\<lparr>Call = [], TMin = 0, TMax = 10, ChunkSize = 2 :: 64 word\<rparr>"
  let ?m2 = "\<lparr>Call = ''count'', TMin = 0, TMax = 10, ChunkSize = 2 :: 64 word\<rparr>"
  let ?S = "\<lambda>m::64 word RemoteMapper. (Inr 0 :: error + nat)"
  let ?C1 = "\<lambda>m::64 word RemoteMapper. (Inr None :: error + unit option)"
  let ?C2 = "\<lambda>m::64 word RemoteMapper. (Inr (Some ()) :: error + unit option)"
  have o: "Open exampleMapper 0 = (None, 0)" by (simp add: exampleMapper_def)
  have b1: "Begin exampleMapper 0 None (TMin ?m1) (ChunkSize ?m1) = (None, 0)"
    by (simp add: exampleMapper_def)
  have b2: "Begin exampleMapper 0 (Some ()) (TMin ?m2) (ChunkSize ?m2) = (None, 0)"
    by (simp add: exampleMapper_def)
  have d: "marshalResponse exampleEncoders \<lparr>Data = [], Completed = True, MapErr = []\<rparr>
             = Inr ''completed''"
    by (simp add: exampleEncoders_def)
  have f1: "firstEmptyAt exampleMapper (TMax ?m1) 0 3 \<and> noErrorWithin exampleMapper exampleEncoders (TMax ?m1) 0 3"
    using exampleMapper_firstEmptyAt exampleMapper_noError by simp
  have u: "unat (ChunkSize ?m2) = 2" by simp
  have f2: "firstEmptyAt exampleMapper (TMax ?m2) 0 3
            \<and> noErrorWithin exampleMapper exampleEncoders (TMax ?m2) 0 (min 3 (unat (ChunkSize ?m2)))"
    using exampleMapper_firstEmptyAt exampleMapper_noError by simp
  have cl: "Close exampleMapper s = s" for s by (simp add: exampleMapper_def)
  have bf: "body freshResponse = []" by (simp add: freshResponse_def)
  have "\<exists>w'. serveRunMapper exampleMapper exampleEncoders ?S ?C1 (Inr ?m1) freshResponse
                 = Some (w', Some (Close exampleMapper (mstate exampleMapper 0 3)))
             \<and> body w' = body freshResponse
                  @ map Bytes (map (frameBytes exampleEncoders)
                      (take (framesUntilExhaustion exampleMapper 0 3)
                         (intervalValues exampleMapper 0 3)))
                  @ [Bytes ''completed'']"
    using serveRunMapper_stops_at_exhaustion_or_chunk
            [of "Inr ?m1" ?m1 ?S 0 exampleMapper 0 ?C1 None 0 exampleEncoders "''completed''"
                freshResponse,
             OF refl refl o refl b1 d] f1
    by blast
  then have a: "\<exists>w'. serveRunMapper exampleMapper exampleEncoders ?S ?C1 (Inr ?m1) freshResponse
          = Some (w', Some 3)
        \<and> body w' = [Bytes ''data: 0'', Bytes ''data: null'', Bytes ''data: 2'',
                      Bytes ''completed'']"
    by (simp add: exampleMapper_values exampleMapper_frames exampleMapper_mstate
          exampleEncoders_frames cl bf)
  have c2: "Some () \<noteq> (None :: unit option) \<and> 0 <s ChunkSize ?m2"
    by (simp add: word_sless_alt)
  have "\<exists>w' fs. serveRunMapper exampleMapper exampleEncoders ?S ?C2 (Inr ?m2) freshResponse
                 = Some (w', Some (Close exampleMapper
                                     (mstate exampleMapper 0 (min 3 (unat (ChunkSize ?m2))))))
             \<and> body w' = body freshResponse @ map Bytes fs @ [Bytes ''completed'']
             \<and> fs = map (frameBytes exampleEncoders)
                      (take (min (framesUntilExhaustion exampleMapper 0 3) (unat (ChunkSize ?m2)))
                         (intervalValues exampleMapper 0 3))
             \<and> length fs = min (framesUntilExhaustion exampleMapper 0 3) (unat (ChunkSize ?m2))"
    using serveRunMapper_stops_at_exhaustion_or_chunk
            [of "Inr ?m2" ?m2 ?S 0 exampleMapper 0 ?C2 "Some ()" 0 exampleEncoders "''completed''"
                freshResponse,
             OF refl refl o refl b2 d] f2 c2
    by blast
  then have b: "\<exists>w' fs. serveRunMapper exampleMapper exampleEncoders ?S ?C2 (Inr ?m2) freshResponse
          = Some (w', Some 2)
        \<and> body w' = map Bytes fs @ [Bytes ''completed'']
        \<and> fs = [''data: 0'', ''data: null''] \<and> length fs = 2"
    unfolding u
    by (simp add: exampleMapper_values exampleMapper_frames exampleMapper_mstate
          exampleEncoders_frames cl bf)
  from a b show ?thesis by blast
qed

text \<open>
  C9, as the claim states it, fails: the counter is a machine integer, and decrementing
  it from zero or from a negative number wraps around, so that it does reach zero. An
  aggregate session with chunk size 0 on a mapper that always has a next interval and is
  never exhausted, with a counter of 64 bits, is stopped by the counter after
  \<open>2 ^ 64\<close> interval frames and answers with the completed frame; the raw session on
  the same mapper never returns.
\<close>

theorem serveRunMapper_zero_chunk_counter_stop_counterexample:
  "map_option snd
      (serveRunMapper endlessMapper exampleEncoders (\<lambda>m. Inr 0) (\<lambda>m. Inr (Some ()))
         (Inr \<lparr>Call = ''count'', TMin = 0, TMax = 10, ChunkSize = 0\<rparr>) freshResponse)
     = Some (Some 18446744073709551616)
   \<and> map_option (\<lambda>r. length (body (fst r)))
      (serveRunMapper endlessMapper exampleEncoders (\<lambda>m. Inr 0) (\<lambda>m. Inr (Some ()))
         (Inr \<lparr>Call = ''count'', TMin = 0, TMax = 10, ChunkSize = 0\<rparr>) freshResponse)
     = Some 18446744073709551617
   \<and> serveRunMapper endlessMapper exampleEncoders (\<lambda>m. Inr 0) (\<lambda>m. Inr None)
         (Inr \<lparr>Call = [], TMin = 0, TMax = 10, ChunkSize = 0\<rparr>) freshResponse
     = None"
proof -
  let ?m1 = "\<lparr>Call = ''count'', TMin = 0, TMax = 10, ChunkSize = 0 :: 64 word\<rparr>"
  let ?m2 = "\<lparr>Call = [], TMin = 0, TMax = 10, ChunkSize = 0 :: 64 word\<rparr>"
  let ?w1 = "WriteHeader 200 (HeaderAdd ''content-type'' ''application/json'' freshResponse)"
  have o: "Open endlessMapper 0 = (None, 0)" by (simp add: endlessMapper_def)
  have b1: "Begin endlessMapper 0 (Some ()) (TMin ?m1) (ChunkSize ?m1) = (None, 0)"
    by (simp add: endlessMapper_def)
  have b2: "Begin endlessMapper 0 None (TMin ?m2) (ChunkSize ?m2) = (None, 0)"
    by (simp add: endlessMapper_def)
  have d: "marshalResponse exampleEncoders \<lparr>Data = [], Completed = True, MapErr = []\<rparr>
             = Inr ''completed''"
    by (simp add: exampleEncoders_def)
  have cl: "Close endlessMapper s = s" for s by (simp add: endlessMapper_def)
  have K: "counterStop (0 :: 64 word) = 18446744073709551616" by (simp add: counterStop_def)
  have agg: "mapperLoop endlessMapper exampleEncoders False 10 (0 :: 64 word) 0 ?w1
        = Some (Break, mstate endlessMapper 0 18446744073709551616,
                writeFrames (map (frameBytes exampleEncoders)
                   (intervalValues endlessMapper 0 18446744073709551616)) ?w1)"
    using mapperLoop_counter_reached[OF K endlessMapper_stillRunning] .
  have raw: "mapperLoop endlessMapper exampleEncoders True 10 (0 :: 64 word) 0 ?w1 = None"
    using endlessMapper_stillRunning by (intro mapperLoop_raw_never) simp
  have s1: "serveRunMapper endlessMapper exampleEncoders (\<lambda>m. Inr 0) (\<lambda>m. Inr (Some ()))
              (Inr ?m1) freshResponse
            = Some (Flush (Write (Bytes ''completed'')
                      (writeFrames (map (frameBytes exampleEncoders)
                         (intervalValues endlessMapper 0 18446744073709551616)) ?w1)),
                    Some 18446744073709551616)"
    using serveRunMapper_started
            [of "Inr ?m1" ?m1 "\<lambda>m. Inr 0" 0 endlessMapper 0 "\<lambda>m. Inr (Some ())" "Some ()" 0
                exampleEncoders "''completed''" freshResponse, OF refl refl o refl b1 d]
    by (simp add: agg cl endlessMapper_mstate)
  have s2: "serveRunMapper endlessMapper exampleEncoders (\<lambda>m. Inr 0) (\<lambda>m. Inr None)
              (Inr ?m2) freshResponse = None"
    using serveRunMapper_started
            [of "Inr ?m2" ?m2 "\<lambda>m. Inr 0" 0 endlessMapper 0 "\<lambda>m. Inr None" None 0
                exampleEncoders "''completed''" freshResponse, OF refl refl o refl b2 d]
    by (simp add: raw)
  have bw: "body (Write (Bytes fin) w2) = body w2 @ [Bytes fin]" for fin w2
    by (simp add: Write_def WriteHeader_def Let_def)
  have l: "length (body (Flush (Write (Bytes ''completed'')
                      (writeFrames (map (frameBytes exampleEncoders)
                         (intervalValues endlessMapper 0 18446744073709551616)) ?w1))))
           = 18446744073709551617"
    by (simp add: bw body_writeFrames WriteHeader_def HeaderAdd_def freshResponse_def)
  show ?thesis unfolding s1 s2 using l by simp
qed

text \<open>
  C9, amended. In an aggregate session whose chunk size \<open>c\<close> is zero or negative the
  remaining-chunk counter is decremented before it is compared to zero, and it is a
  machine integer of some width \<open>w\<close>: it reaches zero after \<open>2 ^ w + c\<close>
  decrements, which is at least \<open>2 ^ (w - 1)\<close>. A session that is no longer running
  after that many intervals (an error or the exhaustion predicate has stopped it before)
  goes exactly as a raw session would: when the mapper is exhausted for the first time
  after \<open>n\<close> intervals, \<open>n\<close> not more than that number, and nothing fails, the
  session emits interval frames until \<open>IsEmpty(TMax)\<close> holds. A session that is
  still running after \<open>2 ^ w + c\<close> intervals is stopped there by the counter.
\<close>

theorem mapperLoop_nonpositive_chunk_like_raw:
  fixes c :: "'w::len word"
  assumes "c \<le>s 0"
  shows "int (counterStop c) = 2 ^ LENGTH('w) + sint c
       \<and> 2 ^ (LENGTH('w) - 1) \<le> counterStop c
       \<and> (\<not> stillRunning lm enc tmax s (counterStop c) \<longrightarrow>
            mapperLoop lm enc False tmax c s w = mapperLoop lm enc True tmax c s w)
       \<and> (\<forall>n. firstEmptyAt lm tmax s n \<and> n \<le> counterStop c \<and> noErrorWithin lm enc tmax s n \<longrightarrow>
            mapperLoop lm enc False tmax c s w =
              Some (Break, mstate lm s n,
                    writeFrames (map (frameBytes enc)
                       (take (framesUntilExhaustion lm s n) (intervalValues lm s n))) w))
       \<and> (stillRunning lm enc tmax s (counterStop c) \<longrightarrow>
            mapperLoop lm enc False tmax c s w =
              Some (Break, mstate lm s (counterStop c),
                    writeFrames (map (frameBytes enc)
                       (intervalValues lm s (counterStop c))) w))"
proof (intro conjI impI allI)
  show "int (counterStop c) = 2 ^ LENGTH('w) + sint c"
    using assms by (rule counterStop_nonpositive(1))
  show "2 ^ (LENGTH('w) - 1) \<le> counterStop c"
    using assms by (rule counterStop_nonpositive(2))
  show "mapperLoop lm enc False tmax c s w = mapperLoop lm enc True tmax c s w"
    if "\<not> stillRunning lm enc tmax s (counterStop c)"
    using refl that by (rule mapperLoop_counter_not_reached)
  show "mapperLoop lm enc False tmax c s w =
              Some (Break, mstate lm s n,
                    writeFrames (map (frameBytes enc)
                       (take (framesUntilExhaustion lm s n) (intervalValues lm s n))) w)"
    if h: "firstEmptyAt lm tmax s n \<and> n \<le> counterStop c \<and> noErrorWithin lm enc tmax s n" for n
  proof -
    from h have e: "IsEmpty lm (mstate lm s n) tmax" and n1: "1 \<le> n"
      by (simp_all add: firstEmptyAt_def)
    have "\<not> stillRunning lm enc tmax s (counterStop c)"
      using stillRunning_not_empty[of lm enc tmax s "counterStop c" n] e n1 h by blast
    then have "mapperLoop lm enc False tmax c s w = mapperLoop lm enc True tmax c s w"
      using refl by (intro mapperLoop_counter_not_reached)
    also have "\<dots> = Some (Break, mstate lm s n,
                    writeFrames (map (frameBytes enc)
                       (take (framesUntilExhaustion lm s n) (intervalValues lm s n))) w)"
      using h by (intro mapperLoop_raw) simp_all
    finally show ?thesis .
  qed
  show "mapperLoop lm enc False tmax c s w =
              Some (Break, mstate lm s (counterStop c),
                    writeFrames (map (frameBytes enc)
                       (intervalValues lm s (counterStop c))) w)"
    if "stillRunning lm enc tmax s (counterStop c)"
    using refl that by (rule mapperLoop_counter_reached)
qed

theorem mapperLoop_nonpositive_chunk_like_raw_witness:
  "counterStop (- 2 :: 64 word) = 18446744073709551614
   \<and> mapperLoop exampleMapper exampleEncoders False 10 (- 2) 0 freshResponse
     = mapperLoop exampleMapper exampleEncoders True 10 (- 2) 0 freshResponse
   \<and> mapperLoop exampleMapper exampleEncoders False 10 (- 2) 0 freshResponse
     = Some (Break, 3, writeFrames [''data: 0'', ''data: null'', ''data: 2''] freshResponse)"
proof -
  have c: "(- 2 :: 64 word) \<le>s 0" by (simp add: word_sle_eq)
  have K: "counterStop (- 2 :: 64 word) = 18446744073709551614" by (simp add: counterStop_def)
  note T = mapperLoop_nonpositive_chunk_like_raw
             [OF c, of exampleMapper exampleEncoders 10 0 freshResponse]
  have e: "IsEmpty exampleMapper (mstate exampleMapper 0 3) 10"
    by (simp add: exampleMapper_mstate) (simp add: exampleMapper_def)
  have ns: "\<not> stillRunning exampleMapper exampleEncoders 10 0 (counterStop (- 2 :: 64 word))"
    using stillRunning_not_empty
            [of exampleMapper exampleEncoders 10 0 "counterStop (- 2 :: 64 word)" 3] e
    unfolding K by auto
  from T ns have eq: "mapperLoop exampleMapper exampleEncoders False 10 (- 2) 0 freshResponse
     = mapperLoop exampleMapper exampleEncoders True 10 (- 2) 0 freshResponse"
    by blast
  have h: "firstEmptyAt exampleMapper 10 0 3 \<and> 3 \<le> counterStop (- 2 :: 64 word)
           \<and> noErrorWithin exampleMapper exampleEncoders 10 0 3"
    using exampleMapper_firstEmptyAt exampleMapper_noError unfolding K by simp
  from T h
  have "mapperLoop exampleMapper exampleEncoders False 10 (- 2) 0 freshResponse
     = Some (Break, mstate exampleMapper 0 3,
             writeFrames (map (frameBytes exampleEncoders)
                (take (framesUntilExhaustion exampleMapper 0 3)
                   (intervalValues exampleMapper 0 3))) freshResponse)"
    by blast
  then have v: "mapperLoop exampleMapper exampleEncoders False 10 (- 2) 0 freshResponse
     = Some (Break, 3, writeFrames [''data: 0'', ''data: null'', ''data: 2''] freshResponse)"
    by (simp add: exampleMapper_values exampleMapper_frames exampleMapper_mstate
          exampleEncoders_frames)
  from K eq v show ?thesis by blast
qed

subsection \<open>serveDump\<close>
















end
